theory Spec2Isabelle
  imports Main "HOL-Library.Word"
begin

section \<open>Strings and errors\<close>

text \<open>
  A JavaScript string is a sequence of 16-bit code units. A character of the source
  (\<open>this.buffer[0]\<close>, \<open>this.currentChar\<close>) is one code unit.
\<close>

type_synonym cu = "16 word"
type_synonym jstring = "cu list"

abbreviation cu :: "char \<Rightarrow> cu" where
  "cu c \<equiv> of_char c"

definition js :: "string \<Rightarrow> jstring" where
  "js = map of_char"

text \<open>
  Every \<open>throw new Error(...)\<close> of the three modules, by kind. The payload is what
  the message interpolates; an absent character is the message's "end of stream".
\<close>

datatype error =
    ReadPastEndOfStream
  | UnexpectedCharacter "cu option"
  | ExpectedCharacter cu "cu option"
  | ExpectedOneOf "cu list" "cu option"
  | MalformedNumber jstring "cu option"
  | NonFiniteNumber jstring
  | InvalidEscape cu
  | IncompleteEscape
  | InvalidUnicodeEscape jstring
  | DoubleConsume
  | StaleHandle
  | AlreadyIterated
  | DirtyReset jstring

section \<open>SyncReducer.ts\<close>

text \<open>
  \<open>syncReducer(initialState, reducer)\<close> builds an object with a \<open>state\<close> slot and a
  streamable value created by the \<open>ai/rsc\<close> library. The reducer may throw, so it returns
  a sum. The library's \<open>update\<close> is a parameter \<open>upd\<close>: it takes the action and the
  sink, may throw, and returns the sink it leaves behind.
\<close>

record ('s, 'k) syncReducerObj =
  state :: 's
  streamableValue :: 'k

definition syncReducer :: "'s \<Rightarrow> 'k \<Rightarrow> ('s, 'k) syncReducerObj" where
  "syncReducer initialState created = \<lparr>state = initialState, streamableValue = created\<rparr>"

definition dispatch ::
  "('s \<Rightarrow> 'a \<Rightarrow> 'e + 's) \<Rightarrow> ('a \<Rightarrow> 'k \<Rightarrow> ('e + unit) \<times> 'k) \<Rightarrow> 'a
    \<Rightarrow> ('s, 'k) syncReducerObj \<Rightarrow> ('e + 's) \<times> ('s, 'k) syncReducerObj" where
  "dispatch reducer upd action obj =
     (case reducer (state obj) action of
        Inl e \<Rightarrow> (Inl e, obj)
      | Inr st \<Rightarrow>
          (let obj1 = obj\<lparr>state := st\<rparr> in
           case upd action (streamableValue obj1) of
             (Inl e, k) \<Rightarrow> (Inl e, obj1\<lparr>streamableValue := k\<rparr>)
           | (Inr _, k) \<Rightarrow> (Inr (state obj1), obj1\<lparr>streamableValue := k\<rparr>)))"

text \<open>A sink that records the pushed actions in order and never throws.\<close>

definition push :: "'a \<Rightarrow> 'a list \<Rightarrow> ('e + unit) \<times> 'a list" where
  "push action sink = (Inr (), sink @ [action])"

section \<open>TextThoughtStateMachine.ts\<close>

datatype mode = Text | Thought

text \<open>
  The dispatched action: its type, the id of the current segment and the text delta
  (\<open>isFromUser\<close> is the constant \<open>false\<close>).
\<close>

datatype action = APPEND_TEXT nat jstring | APPEND_THOUGHT nat jstring

text \<open>
  \<open>generateId()\<close> comes from the \<open>ai\<close> package. It is modelled by a counter
  \<open>tsm_generated\<close>: the n-th call returns the id n. The dispatcher is modelled by the
  list \<open>tsm_dispatched\<close> of the actions it received, oldest first.
\<close>

record tsm =
  tsm_buffer :: jstring
  tsm_currentId :: nat
  tsm_currentMode :: mode
  tsm_generated :: nat
  tsm_dispatched :: "action list"

definition generateId :: "tsm \<Rightarrow> nat \<times> tsm" where
  "generateId m = (tsm_generated m, m\<lparr>tsm_generated := Suc (tsm_generated m)\<rparr>)"

definition new_tsm :: tsm where
  "new_tsm = \<lparr>tsm_buffer = [], tsm_currentId = 0, tsm_currentMode = Text,
              tsm_generated = 1, tsm_dispatched = []\<rparr>"

definition reset :: "tsm \<Rightarrow> error + tsm" where
  "reset m =
     (if tsm_buffer m \<noteq> [] then Inl (DirtyReset (tsm_buffer m))
      else (let (i, m1) = generateId (m\<lparr>tsm_currentMode := Text\<rparr>)
            in Inr (m1\<lparr>tsm_currentId := i, tsm_buffer := []\<rparr>)))"

definition switchMode :: "mode \<Rightarrow> tsm \<Rightarrow> tsm" where
  "switchMode newMode m =
     (if tsm_currentMode m = newMode then m
      else (let (i, m1) = generateId (m\<lparr>tsm_currentMode := newMode\<rparr>)
            in m1\<lparr>tsm_currentId := i\<rparr>))"

definition dispatch_tsm :: "jstring \<Rightarrow> tsm \<Rightarrow> tsm" where
  "dispatch_tsm content m =
     m\<lparr>tsm_dispatched := tsm_dispatched m @
        [(if tsm_currentMode m = Text then APPEND_TEXT else APPEND_THOUGHT)
           (tsm_currentId m) content]\<rparr>"

definition targetSequence :: "mode \<Rightarrow> jstring" where
  "targetSequence md = (if md = Text then js ''<plan>'' else js ''</plan>'')"

text \<open>
  The \<open>for\<close> loop of \<open>append\<close> over the characters of the buffer that are still to be
  read, with its two locals \<open>contentBuffer\<close> and \<open>sequenceIndex\<close>. It stops either at a
  complete tag, with the content before it and the buffer after it
  (\<open>this.buffer.slice(i + 1)\<close>), or at the end of the buffer.
\<close>

datatype scanned = Found jstring jstring | Finished jstring nat

fun scan :: "jstring \<Rightarrow> jstring \<Rightarrow> jstring \<Rightarrow> nat \<Rightarrow> scanned" where
  "scan target [] contentBuffer sequenceIndex = Finished contentBuffer sequenceIndex"
| "scan target (ch # rest) contentBuffer sequenceIndex =
     (if sequenceIndex < length target \<and> ch = target ! sequenceIndex then
        (if Suc sequenceIndex = length target then Found contentBuffer rest
         else scan target rest contentBuffer (Suc sequenceIndex))
      else
        scan target rest
          ((if sequenceIndex > 0 then contentBuffer @ take sequenceIndex target
            else contentBuffer) @ [ch]) 0)"

lemma scan_Found_shorter:
  "scan target buf cb si = Found cb' rest \<Longrightarrow> length rest < length buf"
  by (induction buf arbitrary: cb si) (auto split: if_splits intro: less_SucI)

definition flush :: "jstring \<Rightarrow> tsm \<Rightarrow> tsm" where
  "flush contentBuffer m = (if contentBuffer \<noteq> [] then dispatch_tsm contentBuffer m else m)"

function append_tsm :: "jstring \<Rightarrow> tsm \<Rightarrow> tsm" where
  "append_tsm content m =
     (let buf = tsm_buffer m @ content;
          target = targetSequence (tsm_currentMode m)
      in case scan target buf [] 0 of
           Found contentBuffer rest \<Rightarrow>
             append_tsm []
               ((switchMode (if tsm_currentMode m = Text then Thought else Text)
                   (flush contentBuffer (m\<lparr>tsm_buffer := buf\<rparr>)))\<lparr>tsm_buffer := rest\<rparr>)
         | Finished contentBuffer sequenceIndex \<Rightarrow>
             (flush contentBuffer (m\<lparr>tsm_buffer := buf\<rparr>))
               \<lparr>tsm_buffer := (if sequenceIndex > 0 then take sequenceIndex target else [])\<rparr>)"
  by pat_completeness auto
termination
  by (relation "measure (\<lambda>(content, m). length (tsm_buffer m) + length content)")
     (auto dest: scan_Found_shorter)

declare append_tsm.simps [simp del]

section \<open>streamJSON.ts\<close>

subsection \<open>Values, parser state and the sequencing of its operations\<close>

text \<open>
  \<open>JSONValue\<close>. A number is what \<open>Number(numStr)\<close> returns; the conversion is the
  platform's, so the type of numbers is a parameter. An object is the list of its own
  properties.
\<close>

datatype 'n json =
    JNull
  | JBool bool
  | JNum 'n
  | JStr jstring
  | JArr "'n json list"
  | JObj "(jstring \<times> 'n json) list"

datatype valueType = TString | TObject | TArray | TBoolean | TNull | TNumber

text \<open>
  The fields of \<open>StreamingJSON\<close>. The source iterator is the list of the fragments it
  has not produced yet; \<open>next()\<close> on the empty list is \<open>done\<close>.
\<close>

record parser =
  currentChar :: "cu option"
  nestingLevel :: int
  buffer :: jstring
  stream :: "jstring list"

definition StreamingJSON :: "jstring list \<Rightarrow> parser" where
  "StreamingJSON fragments =
     \<lparr>currentChar = None, nestingLevel = 0, buffer = [], stream = fragments\<rparr>"

text \<open>
  An operation of the parser returns its result or the error it threw, and the parser
  as it left it: a thrown error does not undo the reads made before it.
\<close>

type_synonym 'a R = "(error + 'a) \<times> parser"

definition ret :: "'a \<Rightarrow> parser \<Rightarrow> 'a R" where
  "ret x s = (Inr x, s)"

definition throw :: "error \<Rightarrow> parser \<Rightarrow> 'a R" where
  "throw e s = (Inl e, s)"

definition bnd :: "(parser \<Rightarrow> 'a R) \<Rightarrow> ('a \<Rightarrow> parser \<Rightarrow> 'b R) \<Rightarrow> parser \<Rightarrow> 'b R" where
  "bnd m f s = (case m s of (Inl e, s') \<Rightarrow> (Inl e, s') | (Inr x, s') \<Rightarrow> f x s')"

definition lift :: "(parser \<Rightarrow> error + 'a) \<Rightarrow> parser \<Rightarrow> 'a R" where
  "lift f s = (f s, s)"

definition mapR :: "('a \<Rightarrow> 'b) \<Rightarrow> 'a R \<Rightarrow> 'b R" where
  "mapR f r = (case r of (Inl e, s) \<Rightarrow> (Inl e, s) | (Inr x, s) \<Rightarrow> (Inr (f x), s))"

lemma bnd_cong [fundef_cong]:
  "m1 = m2 \<Longrightarrow> s1 = s2 \<Longrightarrow> (\<And>x s'. m2 s2 = (Inr x, s') \<Longrightarrow> f1 x s' = f2 x s')
    \<Longrightarrow> bnd m1 f1 s1 = bnd m2 f2 s2"
  by (auto simp: bnd_def split: prod.splits sum.splits)

subsection \<open>Characters\<close>

definition isSpace :: "cu \<Rightarrow> bool" where
  \<comment> \<open>the regular expression \<open>\s\<close> of JavaScript\<close>
  "isSpace c = (c \<in> {0x09, 0x0A, 0x0B, 0x0C, 0x0D, 0x20, 0xA0, 0x1680, 0x2028, 0x2029,
                      0x202F, 0x205F, 0x3000, 0xFEFF} \<or> (0x2000 \<le> c \<and> c \<le> 0x200A))"

definition isDigit :: "cu \<Rightarrow> bool" where
  "isDigit c = (cu CHR ''0'' \<le> c \<and> c \<le> cu CHR ''9'')"

definition isHex :: "cu \<Rightarrow> bool" where
  "isHex c = (isDigit c \<or> (cu CHR ''A'' \<le> c \<and> c \<le> cu CHR ''F'')
               \<or> (cu CHR ''a'' \<le> c \<and> c \<le> cu CHR ''f''))"

definition NUMBER_START_CHARS :: "cu list" where
  "NUMBER_START_CHARS = js ''-0123456789''"

definition BOOLEAN_START_CHARS :: "cu list" where
  "BOOLEAN_START_CHARS = js ''tf''"

definition OBJECT_END_CHARS :: "cu list" where
  "OBJECT_END_CHARS = js '',}''"

definition ARRAY_END_CHARS :: "cu list" where
  "ARRAY_END_CHARS = js '',]''"

definition SPECIAL_ESCAPE_CHARS :: "cu \<Rightarrow> cu option" where
  "SPECIAL_ESCAPE_CHARS c =
     (if c = cu CHR ''b'' then Some 0x08
      else if c = cu CHR ''f'' then Some 0x0C
      else if c = cu CHR ''n'' then Some 0x0A
      else if c = cu CHR ''r'' then Some 0x0D
      else if c = cu CHR ''t'' then Some 0x09
      else if c = 0x22 then Some 0x22
      else if c = 0x5C then Some 0x5C
      else if c = cu CHR ''/'' then Some (cu CHR ''/'')
      else None)"

subsection \<open>The byte source\<close>

definition nextChar :: "parser \<Rightarrow> unit R" where
  "nextChar s =
     (let s1 = (if buffer s = [] then
                  (case stream s of
                     [] \<Rightarrow> s\<lparr>buffer := []\<rparr>
                   | next # later \<Rightarrow> s\<lparr>buffer := next, stream := later\<rparr>)
                else s)
      in if buffer s1 = [] then
           (if currentChar s1 = None then throw ReadPastEndOfStream s1
            else ret () (s1\<lparr>currentChar := None\<rparr>))
         else ret () (s1\<lparr>currentChar := Some (hd (buffer s1)), buffer := tl (buffer s1)\<rparr>))"

text \<open>What is left to read, as a number that every successful \<open>nextChar\<close> lowers.\<close>

definition msr :: "parser \<Rightarrow> nat" where
  "msr s = 2 * length (buffer s) + 2 * length (concat (stream s)) + 2 * length (stream s)
           + (if currentChar s = None then 0 else 1)"

lemma nextChar_msr: "nextChar s = (Inr x, s') \<Longrightarrow> msr s' < msr s"
  by (cases "buffer s"; cases "stream s"; cases "hd (stream s)")
     (auto simp: nextChar_def msr_def ret_def throw_def Let_def split: if_splits)

function whitespace_loop :: "parser \<Rightarrow> unit R" where
  "whitespace_loop s =
     (if (case currentChar s of None \<Rightarrow> False | Some c \<Rightarrow> isSpace c)
      then bnd nextChar (\<lambda>_ s'. whitespace_loop s') s
      else ret () s)"
  by pat_completeness auto
termination
  by (relation "measure msr") (auto dest: nextChar_msr)

declare whitespace_loop.simps [simp del]

definition consumeWhitespace :: "parser \<Rightarrow> unit R" where
  "consumeWhitespace s =
     bnd (\<lambda>s. if currentChar s = None then nextChar s else ret () s)
         (\<lambda>_. whitespace_loop) s"

definition peekValueType :: "parser \<Rightarrow> error + valueType" where
  "peekValueType s =
     (if currentChar s = Some 0x22 then Inr TString
      else if currentChar s = Some (cu CHR ''{'') then Inr TObject
      else if currentChar s = Some (cu CHR ''['') then Inr TArray
      else if currentChar s = Some (cu CHR ''t'') \<or> currentChar s = Some (cu CHR ''f'')
        then Inr TBoolean
      else if currentChar s = Some (cu CHR ''n'') then Inr TNull
      else if currentChar s = Some (cu CHR ''-'')
              \<or> (case currentChar s of None \<Rightarrow> False | Some c \<Rightarrow> isDigit c)
        then Inr TNumber
      else Inl (UnexpectedCharacter (currentChar s)))"

definition assertChar :: "cu \<Rightarrow> parser \<Rightarrow> error + unit" where
  "assertChar expected s =
     (case currentChar s of
        None \<Rightarrow> Inl (ExpectedCharacter expected None)
      | Some c \<Rightarrow> if c \<noteq> expected then Inl (ExpectedCharacter expected (Some c)) else Inr ())"

definition assertCharSet :: "cu list \<Rightarrow> parser \<Rightarrow> error + unit" where
  "assertCharSet expected s =
     (case currentChar s of
        None \<Rightarrow> Inl (ExpectedOneOf expected None)
      | Some c \<Rightarrow> if c \<notin> set expected then Inl (ExpectedOneOf expected (Some c)) else Inr ())"

definition isCurrentChar :: "(cu \<Rightarrow> bool) \<Rightarrow> parser \<Rightarrow> bool" where
  "isCurrentChar test s = (case currentChar s of None \<Rightarrow> False | Some c \<Rightarrow> test c)"

definition maybeNextChar :: "parser \<Rightarrow> bool R" where
  "maybeNextChar s = (if buffer s = [] then ret False s else bnd nextChar (\<lambda>_. ret True) s)"

subsection \<open>Strings\<close>

definition hexDigit :: "cu \<Rightarrow> nat" where
  "hexDigit c =
     (if isDigit c then unat c - 48
      else if cu CHR ''a'' \<le> c then unat c - 87
      else unat c - 55)"

definition parseInt16 :: "jstring \<Rightarrow> nat" where
  \<comment> \<open>\<open>Number.parseInt(hexCode, 16)\<close> on hexadecimal digits\<close>
  "parseInt16 hexCode = foldl (\<lambda>n c. 16 * n + hexDigit c) 0 hexCode"

definition fromCharCode :: "nat \<Rightarrow> jstring" where
  "fromCharCode n = [of_nat n]"

primrec hexDigits :: "nat \<Rightarrow> jstring \<Rightarrow> parser \<Rightarrow> jstring R" where
  "hexDigits 0 hexCode = ret hexCode"
| "hexDigits (Suc n) hexCode =
     bnd nextChar (\<lambda>_ s.
       case currentChar s of
         None \<Rightarrow> throw (InvalidUnicodeEscape hexCode) s
       | Some c \<Rightarrow>
           if isHex c then hexDigits n (hexCode @ [c]) s
           else throw (InvalidUnicodeEscape (hexCode @ [c])) s)"

definition parseUnicodeEscape :: "parser \<Rightarrow> jstring R" where
  "parseUnicodeEscape = bnd (hexDigits 4 []) (\<lambda>hexCode. ret (fromCharCode (parseInt16 hexCode)))"

text \<open>
  The first half of the loop body of \<open>stringChunks\<close>: the current character, or the
  escape it starts, is decoded onto the chunk.
\<close>

definition stringChunks_char :: "jstring \<Rightarrow> parser \<Rightarrow> jstring R" where
  "stringChunks_char chunk s =
     (if currentChar s = Some 0x5C then
        bnd nextChar (\<lambda>_ s1.
          if isCurrentChar (\<lambda>c. c = cu CHR ''u'') s1 then
            bnd parseUnicodeEscape (\<lambda>x. ret (chunk @ x)) s1
          else
            (case currentChar s1 of
               None \<Rightarrow> throw IncompleteEscape s1
             | Some c \<Rightarrow>
                 (case SPECIAL_ESCAPE_CHARS c of
                    Some e \<Rightarrow> ret (chunk @ [e]) s1
                  | None \<Rightarrow> throw (InvalidEscape c) s1))) s
      else (case currentChar s of Some c \<Rightarrow> ret (chunk @ [c]) s | None \<Rightarrow> ret chunk s))"

text \<open>
  What \<open>stringChunks\<close> does that its consumer and its source can see, in the order it
  does it: \<open>Emit chunk\<close> is \<open>yield chunk\<close>; \<open>Await chunk\<close> is the \<open>nextChar\<close> that
  follows a \<open>maybeNextChar\<close> that returned false, made while \<open>chunk\<close> is the value of the
  local; \<open>AwaitEscape chunk\<close> records that a fragment was taken from the source in the
  middle of an escape sequence, while \<open>chunk\<close> was the value of the local.
\<close>

datatype event = Emit jstring | Await jstring | AwaitEscape jstring

primrec emitted :: "event list \<Rightarrow> jstring list" where
  "emitted [] = []"
| "emitted (e # es) = (case e of Emit chunk \<Rightarrow> chunk # emitted es | _ \<Rightarrow> emitted es)"

definition escape_await :: "jstring \<Rightarrow> parser \<Rightarrow> parser \<Rightarrow> event list" where
  "escape_await chunk s s1 = (if stream s1 \<noteq> stream s then [AwaitEscape chunk] else [])"

lemma hexDigits_msr: "hexDigits n hexCode s = (Inr x, s') \<Longrightarrow> msr s' \<le> msr s"
proof (induction n arbitrary: hexCode s)
  case 0
  then show ?case by (simp add: ret_def)
next
  case (Suc n)
  then show ?case
    by (fastforce simp: bnd_def throw_def split: prod.splits sum.splits option.splits if_splits
          dest: nextChar_msr)
qed

lemma stringChunks_char_msr: "stringChunks_char chunk s = (Inr x, s') \<Longrightarrow> msr s' \<le> msr s"
  by (fastforce simp: stringChunks_char_def parseUnicodeEscape_def bnd_def throw_def ret_def
        split: prod.splits sum.splits option.splits if_splits
        dest: nextChar_msr hexDigits_msr)

lemma maybeNextChar_msr:
  "maybeNextChar s = (Inr b, s') \<Longrightarrow> (if b then msr s' < msr s else s' = s)"
  by (auto simp: maybeNextChar_def bnd_def ret_def split: prod.splits sum.splits if_splits
        dest: nextChar_msr)

function stringChunks_loop ::
  "jstring \<Rightarrow> event list \<Rightarrow> parser \<Rightarrow> (error + jstring) \<times> event list \<times> parser" where
  "stringChunks_loop chunk log s =
     (if currentChar s = Some 0x22 then (Inr chunk, log, s)
      else
        (case stringChunks_char chunk s of
           (Inl e, s1) \<Rightarrow> (Inl e, log @ escape_await chunk s s1, s1)
         | (Inr chunk1, s1) \<Rightarrow>
             (case maybeNextChar s1 of
                (Inl e, s2) \<Rightarrow> (Inl e, log @ escape_await chunk s s1, s2)
              | (Inr True, s2) \<Rightarrow> stringChunks_loop chunk1 (log @ escape_await chunk s s1) s2
              | (Inr False, s2) \<Rightarrow>
                  (case nextChar s2 of
                     (Inl e, s3) \<Rightarrow>
                       (Inl e,
                        log @ escape_await chunk s s1
                          @ (if chunk1 \<noteq> [] then [Emit chunk1] else [])
                          @ [Await (if chunk1 \<noteq> [] then [] else chunk1)], s3)
                   | (Inr _, s3) \<Rightarrow>
                       stringChunks_loop (if chunk1 \<noteq> [] then [] else chunk1)
                         (log @ escape_await chunk s s1
                            @ (if chunk1 \<noteq> [] then [Emit chunk1] else [])
                            @ [Await (if chunk1 \<noteq> [] then [] else chunk1)]) s3))))"
  by pat_completeness auto
termination
proof (relation "measure (\<lambda>(chunk, log, s). msr s)", goal_cases)
  case 1
  then show ?case by simp
next
  case (2 chunk log s x1 s1 chunk1 x2 s2 b)
  then show ?case
    using stringChunks_char_msr [of chunk s chunk1 s1] maybeNextChar_msr [of s1 True s2]
    by simp
next
  case (3 chunk log s x1 s1 chunk1 x2 s2 b x3 s3 u)
  then show ?case
    using stringChunks_char_msr [of chunk s chunk1 s1] maybeNextChar_msr [of s1 False s2]
          nextChar_msr [of s2 u s3]
    by simp
qed

declare stringChunks_loop.simps [simp del]

definition stringChunks :: "parser \<Rightarrow> (error + unit) \<times> event list \<times> parser" where
  "stringChunks s =
     (case bnd consumeWhitespace (\<lambda>_. bnd (lift (assertChar 0x22)) (\<lambda>_. nextChar)) s of
        (Inl e, s1) \<Rightarrow> (Inl e, [], s1)
      | (Inr _, s1) \<Rightarrow>
          (case stringChunks_loop [] [] s1 of
             (Inl e, log, s2) \<Rightarrow> (Inl e, log, s2)
           | (Inr chunk, log, s2) \<Rightarrow>
               (case nextChar s2 of
                  (r, s3) \<Rightarrow> (r, log @ (if chunk \<noteq> [] then [Emit chunk] else []), s3))))"

definition stringJ :: "parser \<Rightarrow> jstring R" where
  "stringJ s =
     (case stringChunks s of
        (Inl e, log, s') \<Rightarrow> (Inl e, s')
      | (Inr _, log, s') \<Rightarrow> (Inr (concat (emitted log)), s'))"

subsection \<open>Numbers and keywords\<close>

text \<open>\<open>numStr += this.currentChar; await this.nextChar()\<close>\<close>

definition accept :: "jstring \<Rightarrow> parser \<Rightarrow> jstring R" where
  "accept numStr s =
     bnd nextChar
       (\<lambda>_. ret (numStr @ (case currentChar s of None \<Rightarrow> js ''null'' | Some c \<Rightarrow> [c]))) s"

lemma accept_msr: "accept numStr s = (Inr x, s') \<Longrightarrow> msr s' < msr s"
  by (auto simp: accept_def bnd_def ret_def split: prod.splits sum.splits dest: nextChar_msr)

function digits :: "jstring \<Rightarrow> parser \<Rightarrow> jstring R" where
  "digits numStr s =
     (if isCurrentChar isDigit s then bnd (accept numStr) (\<lambda>numStr1 s1. digits numStr1 s1) s
      else ret numStr s)"
  by pat_completeness auto
termination
  by (relation "measure (\<lambda>(numStr, s). msr s)") (auto dest: accept_msr)

declare digits.simps [simp del]

definition number_integer :: "jstring \<Rightarrow> parser \<Rightarrow> jstring R" where
  "number_integer numStr s =
     (if isCurrentChar (\<lambda>c. c = cu CHR ''0'') s then accept numStr s
      else if isCurrentChar (\<lambda>c. cu CHR ''1'' \<le> c \<and> c \<le> cu CHR ''9'') s then digits numStr s
      else throw (MalformedNumber numStr (currentChar s)) s)"

definition number_fraction :: "jstring \<Rightarrow> parser \<Rightarrow> jstring R" where
  "number_fraction numStr s =
     (if isCurrentChar (\<lambda>c. c = cu CHR ''.'') s then
        bnd (accept numStr) (\<lambda>numStr1 s1.
          if \<not> isCurrentChar isDigit s1 then throw (MalformedNumber numStr1 (currentChar s1)) s1
          else digits numStr1 s1) s
      else ret numStr s)"

definition number_exponent :: "jstring \<Rightarrow> parser \<Rightarrow> jstring R" where
  "number_exponent numStr s =
     (if isCurrentChar (\<lambda>c. c = cu CHR ''e'' \<or> c = cu CHR ''E'') s then
        bnd (accept numStr) (\<lambda>numStr1.
          bnd (\<lambda>s1. if isCurrentChar (\<lambda>c. c = cu CHR ''+'' \<or> c = cu CHR ''-'') s1
                    then accept numStr1 s1 else ret numStr1 s1)
            (\<lambda>numStr2 s2.
               if \<not> isCurrentChar isDigit s2
               then throw (MalformedNumber numStr2 (currentChar s2)) s2
               else digits numStr2 s2)) s
      else ret numStr s)"

text \<open>
  \<open>num numStr\<close> is \<open>Number(numStr)\<close> when that is finite, and \<open>None\<close> when
  \<open>Number.isFinite\<close> rejects it.
\<close>

definition number :: "(jstring \<Rightarrow> 'n option) \<Rightarrow> parser \<Rightarrow> 'n R" where
  "number num =
     bnd consumeWhitespace (\<lambda>_.
     bnd (lift (assertCharSet NUMBER_START_CHARS)) (\<lambda>_.
     bnd (\<lambda>s. if isCurrentChar (\<lambda>c. c = cu CHR ''-'') s then accept [] s else ret [] s)
       (\<lambda>numStr0.
     bnd (number_integer numStr0) (\<lambda>numStr1.
     bnd (number_fraction numStr1) (\<lambda>numStr2.
     bnd (number_exponent numStr2) (\<lambda>numStr.
       case num numStr of
         None \<Rightarrow> throw (NonFiniteNumber numStr)
       | Some x \<Rightarrow> ret x))))))"

primrec expect_chars :: "jstring \<Rightarrow> parser \<Rightarrow> unit R" where
  \<comment> \<open>\<open>for (const char of expected) { this.assertChar(char); await this.nextChar(); }\<close>\<close>
  "expect_chars [] = ret ()"
| "expect_chars (c # cs) = bnd (lift (assertChar c)) (\<lambda>_. bnd nextChar (\<lambda>_. expect_chars cs))"

primrec next_chars :: "jstring \<Rightarrow> parser \<Rightarrow> unit R" where
  \<comment> \<open>\<open>for (const char of "ull") { await this.nextChar(); this.assertChar(char); }\<close>\<close>
  "next_chars [] = ret ()"
| "next_chars (c # cs) = bnd nextChar (\<lambda>_. bnd (lift (assertChar c)) (\<lambda>_. next_chars cs))"

definition boolean :: "parser \<Rightarrow> bool R" where
  "boolean =
     bnd consumeWhitespace (\<lambda>_.
     bnd (lift (assertCharSet BOOLEAN_START_CHARS)) (\<lambda>_ s.
       let val = (currentChar s = Some (cu CHR ''t''));
           expected = (if val then js ''true'' else js ''false'')
       in bnd (expect_chars expected) (\<lambda>_. ret val) s))"

definition nullJ :: "parser \<Rightarrow> unit R" where
  "nullJ =
     bnd consumeWhitespace (\<lambda>_.
     bnd (lift (assertChar (cu CHR ''n''))) (\<lambda>_.
     bnd (next_chars (js ''ull'')) (\<lambda>_. nextChar)))"

subsection \<open>Cursors and unparsed values\<close>

text \<open>
  The fields of \<open>StreamingObject\<close>, and \<open>StreamingArray\<close> with its \<open>index\<close>; the
  \<open>parent\<close> of the source is the parser that every operation takes and returns.
\<close>

record 'v streamingCursor =
  iteratorCalled :: bool
  extractedValue :: "'v option"

record 'v streamingArray = "'v streamingCursor" +
  index :: nat

type_synonym 'n streamingObject = "(jstring \<times> 'n json) list streamingCursor"

definition StreamingObject :: "'n streamingObject" where
  "StreamingObject = \<lparr>iteratorCalled = False, extractedValue = None\<rparr>"

definition StreamingArray :: "'n json list streamingArray" where
  "StreamingArray = \<lparr>iteratorCalled = False, extractedValue = None, index = 0\<rparr>"

definition object :: "parser \<Rightarrow> 'n streamingObject R" where
  "object =
     bnd consumeWhitespace (\<lambda>_.
     bnd (lift (assertChar (cu CHR ''{''))) (\<lambda>_.
     bnd nextChar (\<lambda>_ s. ret StreamingObject (s\<lparr>nestingLevel := nestingLevel s + 1\<rparr>))))"

definition array :: "parser \<Rightarrow> 'n json list streamingArray R" where
  "array =
     bnd consumeWhitespace (\<lambda>_.
     bnd (lift (assertChar (cu CHR ''[''))) (\<lambda>_.
     bnd nextChar (\<lambda>_ s. ret StreamingArray (s\<lparr>nestingLevel := nestingLevel s + 1\<rparr>))))"

record handle =
  didParse :: bool
  valid :: bool

definition UnparsedValue :: handle where
  "UnparsedValue = \<lparr>didParse = False, valid = True\<rparr>"

definition markAsParsed :: "handle \<Rightarrow> error + handle" where
  "markAsParsed h =
     (if didParse h then Inl DoubleConsume
      else if \<not> valid h then Inl StaleHandle
      else Inr (h\<lparr>didParse := True\<rparr>))"

definition invalidate :: "handle \<Rightarrow> handle" where
  "invalidate h = h\<lparr>valid := False\<rparr>"

text \<open>
  A typed reader of \<open>UnparsedValue\<close>: \<open>this.markAsParsed(); return await
  this.parent.reader()\<close>. It returns the handle as it leaves it, also when it throws.
\<close>

definition typed_read ::
  "(parser \<Rightarrow> 'a R) \<Rightarrow> handle \<Rightarrow> parser \<Rightarrow> (error + 'a) \<times> handle \<times> parser" where
  "typed_read reader h s =
     (case markAsParsed h of
        Inl e \<Rightarrow> (Inl e, h, s)
      | Inr h1 \<Rightarrow> (case reader s of (r, s1) \<Rightarrow> (r, h1, s1)))"

definition unparsed_string :: "handle \<Rightarrow> parser \<Rightarrow> (error + jstring) \<times> handle \<times> parser" where
  "unparsed_string = typed_read stringJ"

definition unparsed_number ::
  "(jstring \<Rightarrow> 'n option) \<Rightarrow> handle \<Rightarrow> parser \<Rightarrow> (error + 'n) \<times> handle \<times> parser" where
  "unparsed_number num = typed_read (number num)"

definition unparsed_boolean :: "handle \<Rightarrow> parser \<Rightarrow> (error + bool) \<times> handle \<times> parser" where
  "unparsed_boolean = typed_read boolean"

definition unparsed_null :: "handle \<Rightarrow> parser \<Rightarrow> (error + unit) \<times> handle \<times> parser" where
  "unparsed_null = typed_read nullJ"

definition unparsed_object ::
  "handle \<Rightarrow> parser \<Rightarrow> (error + 'n streamingObject) \<times> handle \<times> parser" where
  "unparsed_object = typed_read object"

definition unparsed_array ::
  "handle \<Rightarrow> parser \<Rightarrow> (error + 'n json list streamingArray) \<times> handle \<times> parser" where
  "unparsed_array = typed_read array"

definition unparsed_stringChunks ::
  "handle \<Rightarrow> parser \<Rightarrow> (error + unit) \<times> event list \<times> handle \<times> parser" where
  "unparsed_stringChunks h s =
     (case markAsParsed h of
        Inl e \<Rightarrow> (Inl e, [], h, s)
      | Inr h1 \<Rightarrow> (case stringChunks s of (r, log, s1) \<Rightarrow> (r, log, h1, s1)))"

text \<open>
  \<open>value()\<close> calls itself through the cursors. Below, \<open>valuef\<close> stands for that call:
  \<open>None\<close> is a call that has not returned within the fuel given to it.
\<close>

definition unparsed_value ::
  "(parser \<Rightarrow> 'v R option) \<Rightarrow> handle \<Rightarrow> parser \<Rightarrow> ((error + 'v) \<times> handle \<times> parser) option"
  where
  "unparsed_value valuef h s =
     (case markAsParsed h of
        Inl e \<Rightarrow> Some (Inl e, h, s)
      | Inr h1 \<Rightarrow> (case valuef s of None \<Rightarrow> None | Some (r, s1) \<Rightarrow> Some (r, h1, s1)))"

subsection \<open>Skipping and iterating\<close>

text \<open>The \<open>while\<close> loop of \<open>skip\<close>; each turn of it takes one unit of fuel.\<close>

fun skip_loop :: "(parser \<Rightarrow> 'v R option) \<Rightarrow> nat \<Rightarrow> int \<Rightarrow> parser \<Rightarrow> unit R option" where
  "skip_loop valuef 0 initialNestingLevel s =
     (if nestingLevel s > initialNestingLevel then None else Some (Inr (), s))"
| "skip_loop valuef (Suc n) initialNestingLevel s =
     (if nestingLevel s > initialNestingLevel then
        (case valuef s of
           None \<Rightarrow> None
         | Some (Inl e, s1) \<Rightarrow> Some (Inl e, s1)
         | Some (Inr _, s1) \<Rightarrow> skip_loop valuef n initialNestingLevel s1)
      else Some (Inr (), s))"

definition skip :: "(parser \<Rightarrow> 'v R option) \<Rightarrow> nat \<Rightarrow> parser \<Rightarrow> unit R option" where
  "skip valuef fuel s =
     (case valuef s of
        None \<Rightarrow> None
      | Some (Inl e, s1) \<Rightarrow> Some (Inl e, s1)
      | Some (Inr _, s1) \<Rightarrow> skip_loop valuef fuel (nestingLevel s1) s1)"

text \<open>
  The two generators are cut at their \<open>yield\<close>. \<open>object_advance\<close> and \<open>array_advance\<close>
  run from the top of the loop to the \<open>yield\<close> or to the \<open>break\<close>; \<open>resume\<close> runs from
  the \<open>yield\<close> to the end of the loop body, with the handle as the consumer left it, and
  is the same in both but for the set of closing characters; its last three statements
  are \<open>separator\<close>.
\<close>

datatype 'k step = Done | Yield 'k handle

definition object_advance :: "parser \<Rightarrow> jstring step R" where
  "object_advance =
     bnd consumeWhitespace (\<lambda>_ s.
       if currentChar s = Some (cu CHR ''}'') then
         bnd nextChar (\<lambda>_ s1. ret Done (s1\<lparr>nestingLevel := nestingLevel s1 - 1\<rparr>)) s
       else
         bnd stringJ (\<lambda>key.
         bnd consumeWhitespace (\<lambda>_.
         bnd (lift (assertChar (cu CHR '':''))) (\<lambda>_.
         bnd nextChar (\<lambda>_. ret (Yield key UnparsedValue))))) s)"

definition array_advance :: "nat \<Rightarrow> parser \<Rightarrow> nat step R" where
  "array_advance i =
     bnd consumeWhitespace (\<lambda>_ s.
       if currentChar s = Some (cu CHR '']'') then
         bnd nextChar (\<lambda>_ s1. ret Done (s1\<lparr>nestingLevel := nestingLevel s1 - 1\<rparr>)) s
       else ret (Yield i UnparsedValue) s)"

definition separator :: "cu list \<Rightarrow> parser \<Rightarrow> unit R" where
  "separator END_CHARS =
     bnd consumeWhitespace (\<lambda>_.
     bnd (lift (assertCharSet END_CHARS)) (\<lambda>_ s.
       if isCurrentChar (\<lambda>c. c = cu CHR '','') s then nextChar s else ret () s))"

definition resume ::
  "(parser \<Rightarrow> 'v R option) \<Rightarrow> nat \<Rightarrow> cu list \<Rightarrow> handle \<Rightarrow> parser
    \<Rightarrow> ((error + unit) \<times> handle \<times> parser) option" where
  "resume valuef fuel END_CHARS h s =
     (case (if \<not> didParse h then skip valuef fuel s else Some (Inr (), s)) of
        None \<Rightarrow> None
      | Some (Inl e, s1) \<Rightarrow> Some (Inl e, h, s1)
      | Some (Inr _, s1) \<Rightarrow>
          (case separator END_CHARS s1 of (r, s2) \<Rightarrow> Some (r, invalidate h, s2)))"

text \<open>
  \<open>for await (const [key, unparsed] of cursor) body\<close>, once the generator has started.
  The body takes the key or index, the handle and what the consumer has accumulated, and
  returns the handle as it leaves it. Each turn of the loop takes one unit of fuel.
\<close>

fun object_for ::
  "(parser \<Rightarrow> 'v R option)
    \<Rightarrow> (jstring \<Rightarrow> handle \<Rightarrow> 'acc \<Rightarrow> parser \<Rightarrow> ((error + 'acc) \<times> handle \<times> parser) option)
    \<Rightarrow> nat \<Rightarrow> 'acc \<Rightarrow> parser \<Rightarrow> 'acc R option" where
  "object_for valuef body 0 acc s = None"
| "object_for valuef body (Suc n) acc s =
     (case object_advance s of
        (Inl e, s1) \<Rightarrow> Some (Inl e, s1)
      | (Inr Done, s1) \<Rightarrow> Some (Inr acc, s1)
      | (Inr (Yield key h), s1) \<Rightarrow>
          (case body key h acc s1 of
             None \<Rightarrow> None
           | Some (Inl e, h1, s2) \<Rightarrow> Some (Inl e, s2)
           | Some (Inr acc1, h1, s2) \<Rightarrow>
               (case resume valuef n OBJECT_END_CHARS h1 s2 of
                  None \<Rightarrow> None
                | Some (Inl e, h2, s3) \<Rightarrow> Some (Inl e, s3)
                | Some (Inr _, h2, s3) \<Rightarrow> object_for valuef body n acc1 s3)))"

fun array_for ::
  "(parser \<Rightarrow> 'v R option)
    \<Rightarrow> (nat \<Rightarrow> handle \<Rightarrow> 'acc \<Rightarrow> parser \<Rightarrow> ((error + 'acc) \<times> handle \<times> parser) option)
    \<Rightarrow> nat \<Rightarrow> 'acc \<Rightarrow> nat \<Rightarrow> parser \<Rightarrow> ((error + 'acc) \<times> nat \<times> parser) option" where
  "array_for valuef body 0 acc i s = None"
| "array_for valuef body (Suc n) acc i s =
     (case array_advance i s of
        (Inl e, s1) \<Rightarrow> Some (Inl e, i, s1)
      | (Inr Done, s1) \<Rightarrow> Some (Inr acc, i, s1)
      | (Inr (Yield k h), s1) \<Rightarrow>
          (case body k h acc s1 of
             None \<Rightarrow> None
           | Some (Inl e, h1, s2) \<Rightarrow> Some (Inl e, i, s2)
           | Some (Inr acc1, h1, s2) \<Rightarrow>
               (case resume valuef n ARRAY_END_CHARS h1 s2 of
                  None \<Rightarrow> None
                | Some (Inl e, h2, s3) \<Rightarrow> Some (Inl e, i + 1, s3)
                | Some (Inr _, h2, s3) \<Rightarrow> array_for valuef body n acc1 (i + 1) s3)))"

text \<open>
  The whole \<open>for await\<close> over a cursor: the generator refuses to start twice, sets
  \<open>iteratorCalled\<close> and loops. The cursor is returned as the loop leaves it.
\<close>

definition object_iterate ::
  "(parser \<Rightarrow> 'v R option)
    \<Rightarrow> (jstring \<Rightarrow> handle \<Rightarrow> 'acc \<Rightarrow> parser \<Rightarrow> ((error + 'acc) \<times> handle \<times> parser) option)
    \<Rightarrow> nat \<Rightarrow> 'acc \<Rightarrow> 'x streamingCursor \<Rightarrow> parser
    \<Rightarrow> ((error + 'acc) \<times> 'x streamingCursor \<times> parser) option" where
  "object_iterate valuef body fuel acc c s =
     (if iteratorCalled c then Some (Inl AlreadyIterated, c, s)
      else (case object_for valuef body fuel acc s of
              None \<Rightarrow> None
            | Some (r, s1) \<Rightarrow> Some (r, c\<lparr>iteratorCalled := True\<rparr>, s1)))"

definition array_iterate ::
  "(parser \<Rightarrow> 'v R option)
    \<Rightarrow> (nat \<Rightarrow> handle \<Rightarrow> 'acc \<Rightarrow> parser \<Rightarrow> ((error + 'acc) \<times> handle \<times> parser) option)
    \<Rightarrow> nat \<Rightarrow> 'acc \<Rightarrow> 'x streamingArray \<Rightarrow> parser
    \<Rightarrow> ((error + 'acc) \<times> 'x streamingArray \<times> parser) option" where
  "array_iterate valuef body fuel acc c s =
     (if iteratorCalled c then Some (Inl AlreadyIterated, c, s)
      else (case array_for valuef body fuel acc (index c) s of
              None \<Rightarrow> None
            | Some (r, i, s1) \<Rightarrow> Some (r, c\<lparr>iteratorCalled := True, index := i\<rparr>, s1)))"

text \<open>The two bodies a consumer can be: it reads every handle with \<open>value()\<close>, or none.\<close>

definition consume_value ::
  "(parser \<Rightarrow> 'v R option) \<Rightarrow> ('k \<Rightarrow> 'v \<Rightarrow> 'acc \<Rightarrow> 'acc)
    \<Rightarrow> 'k \<Rightarrow> handle \<Rightarrow> 'acc \<Rightarrow> parser \<Rightarrow> ((error + 'acc) \<times> handle \<times> parser) option" where
  "consume_value valuef store k h acc s =
     (case unparsed_value valuef h s of
        None \<Rightarrow> None
      | Some (Inl e, h1, s1) \<Rightarrow> Some (Inl e, h1, s1)
      | Some (Inr v, h1, s1) \<Rightarrow> Some (Inr (store k v acc), h1, s1))"

definition consume_nothing ::
  "'k \<Rightarrow> handle \<Rightarrow> 'acc \<Rightarrow> parser \<Rightarrow> ((error + 'acc) \<times> handle \<times> parser) option" where
  "consume_nothing k h acc s = Some (Inr acc, h, s)"

subsection \<open>Eager values\<close>

text \<open>
  An object is the list of its own properties. \<open>defineProperty\<close> creates or overwrites the
  own property \<open>key\<close>. \<open>setProperty\<close> is the assignment \<open>result[key] = v\<close> on an object that
  was created by \<open>{}\<close>: for the key \<open>__proto__\<close> the assignment runs the setter inherited
  from \<open>Object.prototype\<close>, which creates no own property (it replaces the prototype, which
  is not part of the list, when \<open>v\<close> is an object or null); for every other key it
  creates or overwrites the own property.
\<close>

fun defineProperty :: "jstring \<Rightarrow> 'v \<Rightarrow> (jstring \<times> 'v) list \<Rightarrow> (jstring \<times> 'v) list" where
  "defineProperty key v [] = [(key, v)]"
| "defineProperty key v ((k, x) # ps) =
     (if k = key then (k, v) # ps else (k, x) # defineProperty key v ps)"

definition setProperty :: "jstring \<Rightarrow> 'v \<Rightarrow> (jstring \<times> 'v) list \<Rightarrow> (jstring \<times> 'v) list" where
  "setProperty key v result =
     (if key = js ''__proto__'' then result else defineProperty key v result)"

definition object_value ::
  "(parser \<Rightarrow> 'n json R option) \<Rightarrow> nat \<Rightarrow> 'n streamingObject \<Rightarrow> parser
    \<Rightarrow> ((error + (jstring \<times> 'n json) list) \<times> 'n streamingObject \<times> parser) option" where
  "object_value valuef fuel c s =
     (if iteratorCalled c then Some (Inl AlreadyIterated, c, s)
      else
        (case extractedValue c of
           Some v \<Rightarrow> Some (Inr v, c, s)
         | None \<Rightarrow>
             (case object_iterate valuef (consume_value valuef setProperty) fuel [] c s of
                None \<Rightarrow> None
              | Some (Inl e, c1, s1) \<Rightarrow> Some (Inl e, c1, s1)
              | Some (Inr result, c1, s1) \<Rightarrow>
                  Some (Inr result, c1\<lparr>extractedValue := Some result\<rparr>, s1))))"

definition array_value ::
  "(parser \<Rightarrow> 'n json R option) \<Rightarrow> nat \<Rightarrow> 'n json list streamingArray \<Rightarrow> parser
    \<Rightarrow> ((error + 'n json list) \<times> 'n json list streamingArray \<times> parser) option" where
  "array_value valuef fuel c s =
     (if iteratorCalled c then Some (Inl AlreadyIterated, c, s)
      else
        (case extractedValue c of
           Some v \<Rightarrow> Some (Inr v, c, s)
         | None \<Rightarrow>
             (case array_iterate valuef (consume_value valuef (\<lambda>_ v result. result @ [v]))
                     fuel [] c s of
                None \<Rightarrow> None
              | Some (Inl e, c1, s1) \<Rightarrow> Some (Inl e, c1, s1)
              | Some (Inr result, c1, s1) \<Rightarrow>
                  Some (Inr result, c1\<lparr>extractedValue := Some result\<rparr>, s1))))"

text \<open>
  The body of \<open>value()\<close>, with \<open>valuef\<close> for the calls it makes to itself through the
  cursor it drains and \<open>fuel\<close> for the turns of that cursor's loop.
\<close>

definition value_body ::
  "(jstring \<Rightarrow> 'n option) \<Rightarrow> (parser \<Rightarrow> 'n json R option) \<Rightarrow> nat \<Rightarrow> parser
    \<Rightarrow> 'n json R option" where
  "value_body num valuef fuel s =
     (case consumeWhitespace s of
        (Inl e, s1) \<Rightarrow> Some (Inl e, s1)
      | (Inr _, s1) \<Rightarrow>
          (case peekValueType s1 of
             Inl e \<Rightarrow> Some (Inl e, s1)
           | Inr TString \<Rightarrow> Some (mapR JStr (stringJ s1))
           | Inr TObject \<Rightarrow>
               (case object s1 of
                  (Inl e, s2) \<Rightarrow> Some (Inl e, s2)
                | (Inr c, s2) \<Rightarrow>
                    (case object_value valuef fuel c s2 of
                       None \<Rightarrow> None
                     | Some (r, c1, s3) \<Rightarrow> Some (mapR JObj (r, s3))))
           | Inr TArray \<Rightarrow>
               (case array s1 of
                  (Inl e, s2) \<Rightarrow> Some (Inl e, s2)
                | (Inr c, s2) \<Rightarrow>
                    (case array_value valuef fuel c s2 of
                       None \<Rightarrow> None
                     | Some (r, c1, s3) \<Rightarrow> Some (mapR JArr (r, s3))))
           | Inr TBoolean \<Rightarrow> Some (mapR JBool (boolean s1))
           | Inr TNull \<Rightarrow> Some (mapR (\<lambda>_. JNull) (nullJ s1))
           | Inr TNumber \<Rightarrow> Some (mapR JNum (number num s1))))"

primrec valueJ :: "(jstring \<Rightarrow> 'n option) \<Rightarrow> nat \<Rightarrow> parser \<Rightarrow> 'n json R option" where
  "valueJ num 0 = (\<lambda>s. None)"
| "valueJ num (Suc n) = value_body num (valueJ num n) n"

definition skipJ :: "(jstring \<Rightarrow> 'n option) \<Rightarrow> nat \<Rightarrow> parser \<Rightarrow> unit R option" where
  "skipJ num n = skip (valueJ num n) n"

subsection \<open>What a run leaves behind\<close>

text \<open>
  The error a run ended with, if any, and the parser it left: what two ways of iterating
  a cursor are compared on.
\<close>

definition failure :: "error + 'a \<Rightarrow> error option" where
  "failure r = (case r of Inl e \<Rightarrow> Some e | Inr _ \<Rightarrow> None)"

definition outcome ::
  "((error + 'a) \<times> 'c \<times> parser) option \<Rightarrow> (error option \<times> parser) option" where
  "outcome x = map_option (\<lambda>(r, c, s). (failure r, s)) x"

subsection \<open>Nesting\<close>

text \<open>
  A call that, when it returns a value, returns with the nesting level it was entered
  with; and a loop body that does.
\<close>

definition balanced :: "(parser \<Rightarrow> 'v R option) \<Rightarrow> bool" where
  "balanced valuef \<longleftrightarrow>
     (\<forall>s v s'. valuef s = Some (Inr v, s') \<longrightarrow> nestingLevel s' = nestingLevel s)"

definition balanced_body ::
  "('k \<Rightarrow> handle \<Rightarrow> 'acc \<Rightarrow> parser \<Rightarrow> ((error + 'acc) \<times> handle \<times> parser) option) \<Rightarrow> bool" where
  "balanced_body body \<longleftrightarrow>
     (\<forall>k h a s r h' s'. body k h a s = Some (Inr r, h', s') \<longrightarrow> nestingLevel s' = nestingLevel s)"

section \<open>The reference: JSON texts and the values they denote\<close>

text \<open>
  The reference a parse is compared with is the grammar of RFC 8259 with, for each
  production, the value it denotes. Whitespace is space, tab, line feed and carriage
  return.
\<close>

definition ws_char :: "cu \<Rightarrow> bool" where
  "ws_char c \<longleftrightarrow> c = 0x20 \<or> c = 0x09 \<or> c = 0x0A \<or> c = 0x0D"

definition ws :: "jstring \<Rightarrow> bool" where
  "ws w \<longleftrightarrow> (\<forall>c \<in> set w. ws_char c)"

definition hex_value :: "cu \<Rightarrow> nat option" where
  "hex_value = map_of (zip (js ''0123456789abcdefABCDEF'') ([0..<16] @ [10..<16]))"

definition escape_value :: "cu \<Rightarrow> cu option" where
  "escape_value =
     map_of [(0x22, 0x22), (0x5C, 0x5C), (cu CHR ''/'', cu CHR ''/''), (cu CHR ''b'', 0x08),
             (cu CHR ''f'', 0x0C), (cu CHR ''n'', 0x0A), (cu CHR ''r'', 0x0D),
             (cu CHR ''t'', 0x09)]"

text \<open>
  \<open>string_body cs ds\<close>: the characters \<open>cs\<close> between the quotes of a string denote the
  code units \<open>ds\<close>. An unescaped character is none of quote, backslash and the control
  characters, and denotes itself; \<open>\uXXXX\<close> denotes the one code unit XXXX.
\<close>

inductive string_body :: "jstring \<Rightarrow> jstring \<Rightarrow> bool" where
  sb_end: "string_body [] []"
| sb_char: "c \<noteq> 0x22 \<Longrightarrow> c \<noteq> 0x5C \<Longrightarrow> 0x20 \<le> c \<Longrightarrow> string_body cs ds
    \<Longrightarrow> string_body (c # cs) (c # ds)"
| sb_escape: "escape_value e = Some x \<Longrightarrow> string_body cs ds
    \<Longrightarrow> string_body (0x5C # e # cs) (x # ds)"
| sb_unicode: "hex_value h1 = Some a \<Longrightarrow> hex_value h2 = Some b \<Longrightarrow> hex_value h3 = Some c
    \<Longrightarrow> hex_value h4 = Some d \<Longrightarrow> string_body cs ds
    \<Longrightarrow> string_body (0x5C # cu CHR ''u'' # h1 # h2 # h3 # h4 # cs)
          (of_nat (((a * 16 + b) * 16 + c) * 16 + d) # ds)"

definition digit :: "cu \<Rightarrow> bool" where
  "digit c \<longleftrightarrow> c \<in> set (js ''0123456789'')"

definition int_part :: "jstring \<Rightarrow> bool" where
  "int_part ip \<longleftrightarrow>
     ip = js ''0'' \<or> (\<exists>d ds. ip = d # ds \<and> d \<in> set (js ''123456789'') \<and> list_all digit ds)"

definition frac_part :: "jstring \<Rightarrow> bool" where
  "frac_part fp \<longleftrightarrow>
     fp = [] \<or> (\<exists>ds. fp = cu CHR ''.'' # ds \<and> ds \<noteq> [] \<and> list_all digit ds)"

definition exp_part :: "jstring \<Rightarrow> bool" where
  "exp_part ep \<longleftrightarrow>
     ep = [] \<or> (\<exists>e sg ds. ep = e # sg @ ds \<and> e \<in> set (js ''eE'')
                   \<and> sg \<in> {[], js ''+'', js ''-''} \<and> ds \<noteq> [] \<and> list_all digit ds)"

definition number_lexeme :: "jstring \<Rightarrow> bool" where
  "number_lexeme w \<longleftrightarrow>
     (\<exists>sg ip fp ep. w = sg @ ip @ fp @ ep \<and> sg \<in> {[], js ''-''}
        \<and> int_part ip \<and> frac_part fp \<and> exp_part ep)"

text \<open>
  The members of an object in the order of the text; as \<open>JSON.parse\<close> does, every member
  becomes an own property, and a repeated key keeps its first place and takes its last
  value.
\<close>

definition properties :: "(jstring \<times> 'v) list \<Rightarrow> (jstring \<times> 'v) list" where
  "properties kvs = foldl (\<lambda>result (key, v). defineProperty key v result) [] kvs"

text \<open>
  \<open>own v\<close> is the value \<open>v\<close> with the members named \<open>__proto__\<close> left out, at every
  depth; \<open>plain v\<close>: no member of \<open>v\<close> has that name, at any depth.
\<close>

primrec own :: "'n json \<Rightarrow> 'n json" where
  "own JNull = JNull"
| "own (JBool b) = JBool b"
| "own (JNum x) = JNum x"
| "own (JStr x) = JStr x"
| "own (JArr vs) = JArr (map own vs)"
| "own (JObj ps) = JObj (filter (\<lambda>p. fst p \<noteq> js ''__proto__'') (map (map_prod id own) ps))"

primrec plain :: "'n json \<Rightarrow> bool" where
  "plain JNull = True"
| "plain (JBool b) = True"
| "plain (JNum x) = True"
| "plain (JStr x) = True"
| "plain (JArr vs) = list_all id (map plain vs)"
| "plain (JObj ps) =
     (list_all (\<lambda>p. fst p \<noteq> js ''__proto__'') ps \<and> list_all snd (map (map_prod id plain) ps))"

text \<open>
  \<open>value_text num w v\<close>: the text \<open>w\<close>, without whitespace around it, is a JSON value
  that denotes \<open>v\<close>. \<open>elements_text\<close> and \<open>members_text\<close> are the non-empty contents of
  an array and of an object, from the first value or key to the closing bracket. A number
  denotes what \<open>num\<close> makes of its lexeme.
\<close>

inductive value_text :: "(jstring \<Rightarrow> 'n option) \<Rightarrow> jstring \<Rightarrow> 'n json \<Rightarrow> bool"
  and elements_text :: "(jstring \<Rightarrow> 'n option) \<Rightarrow> jstring \<Rightarrow> 'n json list \<Rightarrow> bool"
  and members_text :: "(jstring \<Rightarrow> 'n option) \<Rightarrow> jstring \<Rightarrow> (jstring \<times> 'n json) list \<Rightarrow> bool"
  for num :: "jstring \<Rightarrow> 'n option" where
  vt_null: "value_text num (js ''null'') JNull"
| vt_true: "value_text num (js ''true'') (JBool True)"
| vt_false: "value_text num (js ''false'') (JBool False)"
| vt_number: "number_lexeme w \<Longrightarrow> num w = Some x \<Longrightarrow> value_text num w (JNum x)"
| vt_string: "string_body cs ds \<Longrightarrow> value_text num (0x22 # cs @ [0x22]) (JStr ds)"
| vt_empty_array: "ws w0 \<Longrightarrow> value_text num (cu CHR ''['' # w0 @ [cu CHR '']'']) (JArr [])"
| vt_array: "ws w0 \<Longrightarrow> elements_text num es vs
    \<Longrightarrow> value_text num (cu CHR ''['' # w0 @ es @ [cu CHR '']'']) (JArr vs)"
| vt_empty_object: "ws w0 \<Longrightarrow> value_text num (cu CHR ''{'' # w0 @ [cu CHR ''}'']) (JObj [])"
| vt_object: "ws w0 \<Longrightarrow> members_text num ms kvs
    \<Longrightarrow> value_text num (cu CHR ''{'' # w0 @ ms @ [cu CHR ''}'']) (JObj (properties kvs))"
| et_last: "value_text num w v \<Longrightarrow> ws w1 \<Longrightarrow> elements_text num (w @ w1) [v]"
| et_more: "value_text num w v \<Longrightarrow> ws w1 \<Longrightarrow> ws w2 \<Longrightarrow> elements_text num es vs
    \<Longrightarrow> elements_text num (w @ w1 @ cu CHR '','' # w2 @ es) (v # vs)"
| mt_last: "string_body cs key \<Longrightarrow> ws w1 \<Longrightarrow> ws w2 \<Longrightarrow> value_text num w v \<Longrightarrow> ws w3
    \<Longrightarrow> members_text num (0x22 # cs @ 0x22 # w1 @ cu CHR '':'' # w2 @ w @ w3) [(key, v)]"
| mt_more: "string_body cs key \<Longrightarrow> ws w1 \<Longrightarrow> ws w2 \<Longrightarrow> value_text num w v \<Longrightarrow> ws w3
    \<Longrightarrow> ws w4 \<Longrightarrow> members_text num ms kvs
    \<Longrightarrow> members_text num
          (0x22 # cs @ 0x22 # w1 @ cu CHR '':'' # w2 @ w @ w3 @ cu CHR '','' # w4 @ ms)
          ((key, v) # kvs)"

definition json_text :: "(jstring \<Rightarrow> 'n option) \<Rightarrow> jstring \<Rightarrow> 'n json \<Rightarrow> bool" where
  "json_text num d v \<longleftrightarrow> (\<exists>w0 w w1. d = w0 @ w @ w1 \<and> ws w0 \<and> ws w1 \<and> value_text num w v)"

section \<open>The parser seen from the text\<close>

text \<open>
  \<open>unread s\<close> is the text the parser has not made current yet. \<open>at s inp\<close>: no fragment
  to come is empty, and the current character followed by the unread text is \<open>inp\<close>; at
  the end of the text no character is current.
\<close>

definition unread :: "parser \<Rightarrow> jstring" where
  "unread s = buffer s @ concat (stream s)"

definition at :: "parser \<Rightarrow> jstring \<Rightarrow> bool" where
  "at s inp \<longleftrightarrow>
     [] \<notin> set (stream s)
     \<and> (case inp of
          [] \<Rightarrow> currentChar s = None \<and> unread s = []
        | c # r \<Rightarrow> currentChar s = Some c \<and> unread s = r)"

text \<open>
  \<open>reads m w v r\<close>: from every parser at the text \<open>w\<close> followed by \<open>r\<close>, the operation
  \<open>m\<close> returns \<open>v\<close> and leaves the parser at \<open>r\<close>. \<open>readsF\<close> is the same for an
  operation that takes fuel.
\<close>

definition reads :: "(parser \<Rightarrow> 'a R) \<Rightarrow> jstring \<Rightarrow> 'a \<Rightarrow> jstring \<Rightarrow> bool" where
  "reads m w v r \<longleftrightarrow> (\<forall>s. at s (w @ r) \<longrightarrow> (\<exists>s'. m s = (Inr v, s') \<and> at s' r))"

definition readsF :: "(parser \<Rightarrow> 'a R option) \<Rightarrow> jstring \<Rightarrow> 'a \<Rightarrow> jstring \<Rightarrow> bool" where
  "readsF m w v r \<longleftrightarrow> (\<forall>s. at s (w @ r) \<longrightarrow> (\<exists>s'. m s = Some (Inr v, s') \<and> at s' r))"

text \<open>What may follow a value in a JSON text: nothing, whitespace, a comma or a closing bracket.\<close>

definition ends :: "jstring \<Rightarrow> bool" where
  "ends r \<longleftrightarrow>
     (case r of [] \<Rightarrow> True
      | c # _ \<Rightarrow> ws_char c \<or> c = cu CHR '','' \<or> c = cu CHR '']'' \<or> c = cu CHR ''}'')"

text \<open>What may follow the digits of a number: anything but a digit.\<close>

definition nodigit :: "jstring \<Rightarrow> bool" where
  "nodigit r \<longleftrightarrow> (case r of [] \<Rightarrow> True | c # _ \<Rightarrow> \<not> isDigit c)"

section \<open>Theorems\<close>

subsection \<open>The tagged-segment splitter\<close>

lemma scan_mismatch:
  "0 < si \<Longrightarrow> si < length target \<Longrightarrow> ch \<noteq> target ! si \<Longrightarrow>
     scan target (ch # rest) cb si = scan target rest (cb @ take si target @ [ch]) 0"
  by simp

text \<open>
  C4. On a mismatch with a nonzero match pointer the matched prefix goes back to the
  accumulator, but the match does not restart at the current character: that character
  is appended as content without being compared with the start of the marker. So on
  \<open><<plan>x</plan>\<close> the marker that begins at the second character is missed and
  the whole input is dispatched as text, in text mode, while \<open><plan>x</plan>\<close> alone
  dispatches the thought \<open>x\<close>.
\<close>

theorem C4_restart_misses_marker:
  "scan (js ''<plan>'') (js ''<<'') [] 0 = Finished (js ''<<'') 0
   \<and> append_tsm (js ''<<plan>x</plan>'') new_tsm
       = new_tsm\<lparr>tsm_dispatched := [APPEND_TEXT 0 (js ''<<plan>x</plan>'')]\<rparr>
   \<and> tsm_dispatched (append_tsm (js ''<plan>x</plan>'') new_tsm) = [APPEND_THOUGHT 1 (js ''x'')]"
  by code_simp

subsection \<open>Handles and cursors\<close>

lemma markAsParsed_done: "markAsParsed h = Inr h1 \<Longrightarrow> didParse h1"
  by (auto simp: markAsParsed_def split: if_splits)

lemma resume_invalidates:
  "resume valuef fuel E h s = Some (Inr u, h2, s2) \<Longrightarrow> h2 = invalidate h"
  by (auto simp: resume_def split: option.splits prod.splits sum.splits if_splits)

text \<open>
  C7 as stated fails: a handle that was read and that its cursor has then passed answers
  a further read with \<open>DoubleConsume\<close>, not with \<open>StaleHandle\<close>. The input is the array
  \<open>["a"]\<close>; its only handle is read as a string, the cursor resumes, the handle is read
  again.
\<close>

theorem C7_consumed_handle_counterexample:
  \<open>(case array (StreamingJSON [js ''["a"]'']) of
      (_ :: (error + (cu list) json list streamingArray), s0) \<Rightarrow>
        (case array_advance 0 s0 of
           (Inr (Yield i h), s1) \<Rightarrow>
             (case unparsed_string h s1 of
                (r, h1, s2) \<Rightarrow>
                  (case resume (valueJ Some 1) 1 ARRAY_END_CHARS h1 s2 of
                     Some (_, h2, s3) \<Rightarrow>
                       (r, valid h2, fst (unparsed_string h2 s3))))))
    = (Inr (js ''a''), False, Inl DoubleConsume)\<close>
  by code_simp

text \<open>
  C7, amended. A handle's typed readers are usable at most once: after a typed read on a
  fresh handle, whether the read succeeded or threw, any typed read on it fails with
  \<open>DoubleConsume\<close>. After the owning cursor has advanced past the handle, any typed read
  on it fails: with \<open>StaleHandle\<close> if the handle was never read, and with
  \<open>DoubleConsume\<close> if it was. The failing read leaves handle and parser as they were.
\<close>

theorem C7_handle_lifecycle:
  "(\<not> didParse h \<and> valid h \<and> typed_read reader h s = (r, h1, s1)
      \<longrightarrow> typed_read reader2 h1 s2 = (Inl DoubleConsume, h1, s2)
          \<and> unparsed_value valuef2 h1 s2 = Some (Inl DoubleConsume, h1, s2))
   \<and> (\<not> didParse h \<and> valid h \<and> unparsed_value valuef h s = Some (r', h1', s1')
      \<longrightarrow> typed_read reader2 h1' s2 = (Inl DoubleConsume, h1', s2)
          \<and> unparsed_value valuef2 h1' s2 = Some (Inl DoubleConsume, h1', s2))
   \<and> (resume valuef3 fuel E h3 s3 = Some (Inr u, h4, s4)
      \<longrightarrow> typed_read reader2 h4 s2
            = (Inl (if didParse h3 then DoubleConsume else StaleHandle), h4, s2)
          \<and> unparsed_value valuef2 h4 s2
            = Some (Inl (if didParse h3 then DoubleConsume else StaleHandle), h4, s2))"
proof (intro conjI impI)
  assume a: "\<not> didParse h \<and> valid h \<and> typed_read reader h s = (r, h1, s1)"
  then have "didParse h1"
    by (auto simp: typed_read_def markAsParsed_def split: prod.splits)
  then show "typed_read reader2 h1 s2 = (Inl DoubleConsume, h1, s2)"
    and "unparsed_value valuef2 h1 s2 = Some (Inl DoubleConsume, h1, s2)"
    by (simp_all add: typed_read_def unparsed_value_def markAsParsed_def)
next
  assume a: "\<not> didParse h \<and> valid h \<and> unparsed_value valuef h s = Some (r', h1', s1')"
  then have "didParse h1'"
    by (auto simp: unparsed_value_def markAsParsed_def split: prod.splits option.splits)
  then show "typed_read reader2 h1' s2 = (Inl DoubleConsume, h1', s2)"
    and "unparsed_value valuef2 h1' s2 = Some (Inl DoubleConsume, h1', s2)"
    by (simp_all add: typed_read_def unparsed_value_def markAsParsed_def)
next
  assume a: "resume valuef3 fuel E h3 s3 = Some (Inr u, h4, s4)"
  then have "h4 = invalidate h3"
    by (rule resume_invalidates)
  then show "typed_read reader2 h4 s2
      = (Inl (if didParse h3 then DoubleConsume else StaleHandle), h4, s2)"
    and "unparsed_value valuef2 h4 s2
      = Some (Inl (if didParse h3 then DoubleConsume else StaleHandle), h4, s2)"
    by (simp_all add: typed_read_def unparsed_value_def markAsParsed_def invalidate_def)
qed

theorem C7_handle_lifecycle_witness:
  \<open>\<not> didParse UnparsedValue \<and> valid UnparsedValue
   \<and> typed_read boolean UnparsedValue (StreamingJSON [js ''true''])
       = (Inr True, \<lparr>didParse = True, valid = True\<rparr>,
          \<lparr>currentChar = None, nestingLevel = 0, buffer = [], stream = []\<rparr>)
   \<and> typed_read nullJ \<lparr>didParse = True, valid = True\<rparr> (StreamingJSON [js ''null''])
       = (Inl DoubleConsume, \<lparr>didParse = True, valid = True\<rparr>, StreamingJSON [js ''null''])
   \<and> unparsed_value (valueJ Some 1) UnparsedValue (StreamingJSON [js ''tru''])
       = Some (Inl (ExpectedCharacter (cu CHR ''e'') None), \<lparr>didParse = True, valid = True\<rparr>,
               \<lparr>currentChar = None, nestingLevel = 0, buffer = [], stream = []\<rparr>)
   \<and> unparsed_value (valueJ Some 1) \<lparr>didParse = True, valid = True\<rparr> (StreamingJSON [js ''1''])
       = Some (Inl DoubleConsume, \<lparr>didParse = True, valid = True\<rparr>, StreamingJSON [js ''1''])
   \<and> resume (valueJ Some 1) 0 ARRAY_END_CHARS UnparsedValue
         \<lparr>currentChar = Some (cu CHR ''1''), nestingLevel = 1, buffer = js '']'', stream = []\<rparr>
       = Some (Inr (), \<lparr>didParse = False, valid = False\<rparr>,
               \<lparr>currentChar = Some (cu CHR '']''), nestingLevel = 1, buffer = [], stream = []\<rparr>)
   \<and> typed_read stringJ \<lparr>didParse = False, valid = False\<rparr> (StreamingJSON [js ''"a"''])
       = (Inl StaleHandle, \<lparr>didParse = False, valid = False\<rparr>, StreamingJSON [js ''"a"''])\<close>
proof -
  let ?h1 = "\<lparr>didParse = True, valid = True\<rparr>"
  let ?h2 = "\<lparr>didParse = False, valid = False\<rparr>"
  let ?e = "\<lparr>currentChar = None, nestingLevel = 0, buffer = [], stream = []\<rparr>"
  let ?s3 = "\<lparr>currentChar = Some (cu CHR ''1''), nestingLevel = 1, buffer = js '']'', stream = []\<rparr>"
  let ?s4 = "\<lparr>currentChar = Some (cu CHR '']''), nestingLevel = 1, buffer = [], stream = []\<rparr>"
  have a: "typed_read boolean UnparsedValue (StreamingJSON [js ''true'']) = (Inr True, ?h1, ?e)"
    by code_simp
  have b: "unparsed_value (valueJ Some 1) UnparsedValue (StreamingJSON [js ''tru''])
            = Some (Inl (ExpectedCharacter (cu CHR ''e'') None), ?h1, ?e)"
    by code_simp
  have c: "resume (valueJ Some 1) 0 ARRAY_END_CHARS UnparsedValue ?s3 = Some (Inr (), ?h2, ?s4)"
    by code_simp
  have d: "\<not> didParse UnparsedValue \<and> valid UnparsedValue"
    by (simp add: UnparsedValue_def)
  show ?thesis
    using C7_handle_lifecycle
            [where h = UnparsedValue and reader = boolean and s = "StreamingJSON [js ''true'']"
               and r = "Inr True" and ?h1.0 = ?h1 and ?s1.0 = ?e and ?reader2.0 = nullJ
               and ?s2.0 = "StreamingJSON [js ''null'']" and ?valuef2.0 = "valueJ Some 1"
               and valuef = "valueJ Some 1" and r' = "Inr JNull" and h1' = ?h1 and s1' = ?e
               and ?valuef3.0 = "valueJ Some 1" and fuel = 0 and E = ARRAY_END_CHARS
               and ?h3.0 = UnparsedValue and ?s3.0 = ?s3 and u = "()" and ?h4.0 = ?h1
               and ?s4.0 = ?s4]
          C7_handle_lifecycle
            [where h = UnparsedValue and reader = boolean and s = "StreamingJSON [js ''tru'']"
               and r = "Inr True" and ?h1.0 = ?h1 and ?s1.0 = ?e and ?reader2.0 = nullJ
               and ?s2.0 = "StreamingJSON [js ''1'']" and ?valuef2.0 = "valueJ Some 1"
               and valuef = "valueJ Some 1"
               and r' = "Inl (ExpectedCharacter (cu CHR ''e'') None)" and h1' = ?h1 and s1' = ?e
               and ?valuef3.0 = "valueJ Some 1" and fuel = 0 and E = ARRAY_END_CHARS
               and ?h3.0 = UnparsedValue and ?s3.0 = ?s3 and u = "()" and ?h4.0 = ?h2
               and ?s4.0 = ?s4]
          C7_handle_lifecycle
            [where h = UnparsedValue and reader = boolean and s = "StreamingJSON [js ''tru'']"
               and r = "Inr True" and ?h1.0 = ?h1 and ?s1.0 = ?e and ?reader2.0 = stringJ
               and ?s2.0 = "StreamingJSON [js ''\"a\"'']" and ?valuef2.0 = "valueJ Some 1"
               and valuef = "valueJ Some 1"
               and r' = "Inl (ExpectedCharacter (cu CHR ''e'') None)" and h1' = ?h1 and s1' = ?e
               and ?valuef3.0 = "valueJ Some 1" and fuel = 0 and E = ARRAY_END_CHARS
               and ?h3.0 = UnparsedValue and ?s3.0 = ?s3 and u = "()" and ?h4.0 = ?h2
               and ?s4.0 = ?s4]
          a b c d
    by simp
qed

text \<open>
  C5. \<open>value()\<close> on a cursor whose iteration has begun fails with \<open>AlreadyIterated\<close>, and
  on a fresh cursor it materializes the container. But the iteration that \<open>value()\<close>
  runs itself sets \<open>iteratorCalled\<close>, and \<open>value()\<close> tests that flag before it looks
  at the cached \<open>extractedValue\<close>: the second call fails instead of returning the cache.
\<close>

lemma array_value_twice:
  "array s0 = (Inr c, s) \<Longrightarrow> array_value valuef fuel c s = Some (Inr v, c1, s1) \<Longrightarrow>
     extractedValue c1 = Some v
     \<and> array_value valuef2 fuel2 c1 s2 = Some (Inl AlreadyIterated, c1, s2)"
  by (auto simp: array_def array_value_def array_iterate_def StreamingArray_def bnd_def
        ret_def lift_def split: prod.splits sum.splits option.splits if_splits)

lemma object_value_twice:
  "object s0 = (Inr c, s) \<Longrightarrow> object_value valuef fuel c s = Some (Inr v, c1, s1) \<Longrightarrow>
     extractedValue c1 = Some v
     \<and> object_value valuef2 fuel2 c1 s2 = Some (Inl AlreadyIterated, c1, s2)"
  by (auto simp: object_def object_value_def object_iterate_def StreamingObject_def bnd_def
        ret_def lift_def split: prod.splits sum.splits option.splits if_splits)

theorem C5_second_value_fails:
  \<open>(case array (StreamingJSON [js ''[1]'']) of
      (_, s) \<Rightarrow>
        (case array_value (valueJ Some 1) 2 StreamingArray s of
           Some (r, c1, s1) \<Rightarrow>
             (r, extractedValue c1, map_option fst (array_value (valueJ Some 1) 2 c1 s1))))
    = (Inr [JNum (js ''1'')], Some [JNum (js ''1'')], Some (Inl AlreadyIterated))
   \<and> (case object (StreamingJSON [js ''{}'']) of
      (_, s) \<Rightarrow>
        (case object_value (valueJ Some 1) 2 StreamingObject s of
           Some (r, c1, s1) \<Rightarrow>
             (r, extractedValue c1, map_option fst (object_value (valueJ Some 1) 2 c1 s1))))
    = (Inr [], Some [], Some (Inl AlreadyIterated))\<close>
  by code_simp


text \<open>
  C8. For every action, \<open>dispatch\<close> first folds the action into the local state and then
  pushes the same action onto the outbound stream: the sink is updated with that action
  from the state already folded. If the reducer throws, the failure reaches the caller,
  the sink is not touched and the state stays as it was.
\<close>

theorem C8_dispatch_fold_then_push:
  "(reducer (state obj) a = Inr st \<longrightarrow>
      snd (dispatch reducer upd a obj)
        = obj\<lparr>state := st, streamableValue := snd (upd a (streamableValue obj))\<rparr>
      \<and> (fst (upd a (streamableValue obj)) = Inr () \<longrightarrow>
            fst (dispatch reducer upd a obj) = Inr st))
   \<and> (reducer (state obj) a = Inl e \<longrightarrow> dispatch reducer upd a obj = (Inl e, obj))"
  by (auto simp: dispatch_def Let_def split: sum.splits prod.splits)

theorem C8_dispatch_witness:
  "(let r = (\<lambda>s a. if a = (0::nat) then Inl ''boom'' else Inr (s + a));
        obj = syncReducer (1::nat) ([]::nat list)
    in r (state obj) 2 = Inr 3
       \<and> dispatch r push 2 obj = (Inr 3, \<lparr>state = 3, streamableValue = [2]\<rparr>)
       \<and> r (state obj) 0 = Inl ''boom''
       \<and> dispatch r push 0 obj = (Inl ''boom'', obj))"
  using C8_dispatch_fold_then_push
          [of "\<lambda>s a. if a = (0::nat) then Inl ''boom'' else Inr (s + a)"
              "syncReducer (1::nat) ([]::nat list)" 2 3 push]
        C8_dispatch_fold_then_push
          [of "\<lambda>s a. if a = (0::nat) then Inl ''boom'' else Inr (s + a)"
              "syncReducer (1::nat) ([]::nat list)" 0 3 push "''boom''"]
  by (simp add: Let_def syncReducer_def push_def prod_eq_iff)

text \<open>
  C9. When \<open>nextChar\<close> has to pull (its buffer is empty) and the source yields an empty
  fragment, it treats the fragment as the end of the stream: with a current character it
  sets the slot to absent, without one it fails with \<open>ReadPastEndOfStream\<close>. In both cases
  it has taken this one fragment from the source and no other, whatever follows it.
\<close>

theorem C9_nextChar_empty_fragment:
  "buffer s = [] \<Longrightarrow> stream s = [] # later \<Longrightarrow>
     nextChar s =
       (if currentChar s = None then (Inl ReadPastEndOfStream, s\<lparr>stream := later\<rparr>)
        else (Inr (), s\<lparr>currentChar := None, stream := later\<rparr>))"
  by (cases s) (auto simp: nextChar_def ret_def throw_def Let_def)

theorem C9_nextChar_empty_fragment_witness:
  "buffer \<lparr>currentChar = Some (cu CHR ''1''), nestingLevel = 0, buffer = [],
            stream = [[], js ''2'']\<rparr> = []
   \<and> nextChar \<lparr>currentChar = Some (cu CHR ''1''), nestingLevel = 0, buffer = [],
                stream = [[], js ''2'']\<rparr>
      = (Inr (), \<lparr>currentChar = None, nestingLevel = 0, buffer = [], stream = [js ''2'']\<rparr>)
   \<and> nextChar \<lparr>currentChar = None, nestingLevel = 0, buffer = [],
                stream = [[], js ''2'']\<rparr>
      = (Inl ReadPastEndOfStream,
         \<lparr>currentChar = None, nestingLevel = 0, buffer = [], stream = [js ''2'']\<rparr>)"
  using C9_nextChar_empty_fragment
          [of "\<lparr>currentChar = Some (cu CHR ''1''), nestingLevel = 0, buffer = [],
                stream = [[], js ''2'']\<rparr>" "[js ''2'']"]
        C9_nextChar_empty_fragment
          [of "\<lparr>currentChar = None, nestingLevel = 0, buffer = [],
                stream = [[], js ''2'']\<rparr>" "[js ''2'']"]
  by simp

subsection \<open>A second top-level value\<close>





subsection \<open>Skipping\<close>

lemma skip_loop_same: "skip_loop valuef fuel (nestingLevel s) s = Some (Inr (), s)"
  by (cases fuel) simp_all

lemma skip_eq:
  "skip valuef fuel s =
     (case valuef s of
        None \<Rightarrow> None
      | Some (Inl e, s1) \<Rightarrow> Some (Inl e, s1)
      | Some (Inr _, s1) \<Rightarrow> Some (Inr (), s1))"
  by (simp add: skip_def skip_loop_same split: option.splits prod.splits sum.splits)

lemma object_advance_fresh:
  "object_advance s = (Inr (Yield k h), s1) \<Longrightarrow> h = UnparsedValue"
  by (auto simp: object_advance_def bnd_def ret_def lift_def
        split: prod.splits sum.splits if_splits)

lemma array_advance_fresh:
  "array_advance i s = (Inr (Yield k h), s1) \<Longrightarrow> h = UnparsedValue"
  by (auto simp: array_advance_def bnd_def ret_def split: prod.splits sum.splits if_splits)


lemmas turn_defs = consume_nothing_def consume_value_def unparsed_value_def markAsParsed_def
  UnparsedValue_def resume_def skip_eq

lemma object_for_skipped:
  "map_option (\<lambda>(r, s). (failure r, s)) (object_for valuef consume_nothing fuel a s)
   = map_option (\<lambda>(r, s). (failure r, s))
       (object_for valuef (consume_value valuef store) fuel b s)"
proof (induction fuel arbitrary: a b s)
  case 0
  show ?case by simp
next
  case (Suc n)
  obtain r s1 where adv: "object_advance s = (r, s1)"
    by (cases "object_advance s")
  show ?case
  proof (cases r)
    case (Inl e)
    with adv show ?thesis by (simp add: failure_def)
  next
    case (Inr st)
    show ?thesis
    proof (cases st)
      case Done
      with adv Inr show ?thesis by (simp add: failure_def)
    next
      case (Yield k h)
      with adv Inr have h: "h = UnparsedValue"
        by (auto dest: object_advance_fresh)
      show ?thesis
      proof (cases "valuef s1")
        case None
        then show ?thesis
          using adv Inr Yield h by (simp add: turn_defs)
      next
        case (Some p)
        obtain r2 s2 where p: "p = (r2, s2)" by (cases p)
        obtain r3 s3 where sep: "separator OBJECT_END_CHARS s2 = (r3, s3)"
          by (cases "separator OBJECT_END_CHARS s2")
        show ?thesis
          using adv Inr Yield h Some p sep Suc.IH
          by (cases r2; cases r3) (simp_all add: turn_defs failure_def)
      qed
    qed
  qed
qed

lemma array_for_skipped:
  "map_option (\<lambda>(r, i, s). (failure r, s)) (array_for valuef consume_nothing fuel a i s)
   = map_option (\<lambda>(r, i, s). (failure r, s))
       (array_for valuef (consume_value valuef store) fuel b i s)"
proof (induction fuel arbitrary: a b i s)
  case 0
  show ?case by simp
next
  case (Suc n)
  obtain r s1 where adv: "array_advance i s = (r, s1)"
    by (cases "array_advance i s")
  show ?case
  proof (cases r)
    case (Inl e)
    with adv show ?thesis by (simp add: failure_def)
  next
    case (Inr st)
    show ?thesis
    proof (cases st)
      case Done
      with adv Inr show ?thesis by (simp add: failure_def)
    next
      case (Yield k h)
      with adv Inr have h: "h = UnparsedValue"
        by (auto dest: array_advance_fresh)
      show ?thesis
      proof (cases "valuef s1")
        case None
        then show ?thesis
          using adv Inr Yield h by (simp add: turn_defs)
      next
        case (Some p)
        obtain r2 s2 where p: "p = (r2, s2)" by (cases p)
        obtain r3 s3 where sep: "separator ARRAY_END_CHARS s2 = (r3, s3)"
          by (cases "separator ARRAY_END_CHARS s2")
        show ?thesis
          using adv Inr Yield h Some p sep Suc.IH
          by (cases r2; cases r3) (simp_all add: turn_defs failure_def)
      qed
    qed
  qed
qed

text \<open>
  C3. Iterating a cursor while reading none of the handles and iterating it while reading
  every handle with \<open>value()\<close> end alike and leave the same parser: the same current
  character, buffer, source and nesting level. This holds on every input and for every
  fuel: the two runs return together, fail together with the same error, or both stop for
  lack of fuel.
\<close>

theorem C3_skipping_is_transparent:
  "outcome (object_iterate valuef consume_nothing fuel a c s)
     = outcome (object_iterate valuef (consume_value valuef store) fuel b c s)
   \<and> outcome (array_iterate valuef consume_nothing fuel a' c' s)
     = outcome (array_iterate valuef (consume_value valuef store') fuel b' c' s)"
proof
  show "outcome (object_iterate valuef consume_nothing fuel a c s)
     = outcome (object_iterate valuef (consume_value valuef store) fuel b c s)"
    using object_for_skipped [of valuef fuel a s store b]
    by (cases "object_for valuef consume_nothing fuel a s";
        cases "object_for valuef (consume_value valuef store) fuel b s")
       (auto simp: outcome_def object_iterate_def failure_def)
  show "outcome (array_iterate valuef consume_nothing fuel a' c' s)
     = outcome (array_iterate valuef (consume_value valuef store') fuel b' c' s)"
    using array_for_skipped [of valuef fuel a' "index c'" s store' b']
    by (cases "array_for valuef consume_nothing fuel a' (index c') s";
        cases "array_for valuef (consume_value valuef store') fuel b' (index c') s")
       (auto simp: outcome_def array_iterate_def failure_def)
qed

lemma skipping_example:
  \<open>(case array (StreamingJSON [js ''[1,'', js ''2]x'']) of
     (_, s) \<Rightarrow>
       (outcome (array_iterate (valueJ Some 1) consume_nothing 3 () StreamingArray s),
        map_option fst
          (array_iterate (valueJ Some 1) (consume_value (valueJ Some 1) (\<lambda>_ v r. r @ [v])) 3 []
             StreamingArray s)))
   = (Some (None,
        \<lparr>currentChar = Some (cu CHR ''x''), nestingLevel = 0, buffer = [], stream = []\<rparr>),
      Some (Inr [JNum (js ''1''), JNum (js ''2'')]))\<close>
  by code_simp

subsection \<open>The nesting level\<close>

lemma nl_ret [simp]: "nestingLevel (snd (ret x s)) = nestingLevel s"
  by (simp add: ret_def)

lemma nl_throw [simp]: "nestingLevel (snd (throw e s)) = nestingLevel s"
  by (simp add: throw_def)

lemma nl_lift [simp]: "nestingLevel (snd (lift f s)) = nestingLevel s"
  by (simp add: lift_def)

lemma nl_nextChar [simp]: "nestingLevel (snd (nextChar s)) = nestingLevel s"
  by (auto simp: nextChar_def ret_def throw_def Let_def split: if_splits list.splits)

lemma nl_bnd [simp]:
  assumes "\<And>s. nestingLevel (snd (m s)) = nestingLevel s"
    and "\<And>x s. nestingLevel (snd (f x s)) = nestingLevel s"
  shows "nestingLevel (snd (bnd m f s)) = nestingLevel s"
proof (cases "m s")
  case (Pair r s1)
  with assms(1) [of s] have "nestingLevel s1 = nestingLevel s" by simp
  with Pair assms(2) show ?thesis
    by (cases r) (simp_all add: bnd_def)
qed

lemma nl_whitespace_loop [simp]: "nestingLevel (snd (whitespace_loop s)) = nestingLevel s"
proof (induction s rule: whitespace_loop.induct)
  case (1 s)
  show ?case
  proof (cases "case currentChar s of None \<Rightarrow> False | Some c \<Rightarrow> isSpace c")
    case True
    obtain r1 s1 where n: "nextChar s = (r1, s1)" by (cases "nextChar s")
    then have k: "nestingLevel s1 = nestingLevel s"
      using nl_nextChar [of s] by simp
    show ?thesis
      using True n k "1.IH" [of _ s1]
      by (subst whitespace_loop.simps) (auto simp: bnd_def split: sum.splits)
  next
    case False
    then show ?thesis
      by (subst whitespace_loop.simps) simp
  qed
qed

lemma nl_consumeWhitespace [simp]: "nestingLevel (snd (consumeWhitespace s)) = nestingLevel s"
  by (simp add: consumeWhitespace_def)

lemma nl_hexDigits [simp]: "nestingLevel (snd (hexDigits n hexCode s)) = nestingLevel s"
  by (induction n arbitrary: hexCode s) (simp_all split: option.splits)

lemma nl_parseUnicodeEscape [simp]:
  "nestingLevel (snd (parseUnicodeEscape s)) = nestingLevel s"
  by (simp add: parseUnicodeEscape_def)

lemma nl_stringChunks_char [simp]:
  "nestingLevel (snd (stringChunks_char chunk s)) = nestingLevel s"
  by (simp add: stringChunks_char_def split: option.splits)

lemma nl_maybeNextChar [simp]: "nestingLevel (snd (maybeNextChar s)) = nestingLevel s"
  by (simp add: maybeNextChar_def)

lemma nl_stringChunks_loop [simp]:
  "nestingLevel (snd (snd (stringChunks_loop chunk log s))) = nestingLevel s"
proof (induction chunk log s rule: stringChunks_loop.induct)
  case (1 chunk log s)
  obtain r1 s1 where a: "stringChunks_char chunk s = (r1, s1)"
    by (cases "stringChunks_char chunk s")
  obtain r2 s2 where b: "maybeNextChar s1 = (r2, s2)"
    by (cases "maybeNextChar s1")
  obtain r3 s3 where c: "nextChar s2 = (r3, s3)"
    by (cases "nextChar s2")
  have k: "nestingLevel s1 = nestingLevel s" "nestingLevel s2 = nestingLevel s1"
    "nestingLevel s3 = nestingLevel s2"
    using a b c nl_stringChunks_char [of chunk s] nl_maybeNextChar [of s1] nl_nextChar [of s2]
    by simp_all
  show ?case
    using a b c k "1.IH"
    by (subst stringChunks_loop.simps) (auto split: sum.splits bool.splits)
qed

lemma nl_stringChunks [simp]: "nestingLevel (snd (snd (stringChunks s))) = nestingLevel s"
proof -
  let ?m = "bnd consumeWhitespace (\<lambda>_. bnd (lift (assertChar 0x22)) (\<lambda>_. nextChar))"
  obtain r1 s1 where a: "?m s = (r1, s1)" by (cases "?m s")
  have "nestingLevel (snd (?m s)) = nestingLevel s"
    by simp
  with a have k1: "nestingLevel s1 = nestingLevel s"
    by simp
  obtain r2 l2 s2 where b: "stringChunks_loop [] [] s1 = (r2, l2, s2)"
    by (cases "stringChunks_loop [] [] s1")
  have k2: "nestingLevel s2 = nestingLevel s1"
    using nl_stringChunks_loop [of "[]" "[]" s1] b by simp
  obtain r3 s3 where c: "nextChar s2 = (r3, s3)" by (cases "nextChar s2")
  have k3: "nestingLevel s3 = nestingLevel s2"
    using c nl_nextChar [of s2] by simp
  show ?thesis
    using a b c k1 k2 k3 by (cases r1; cases r2) (simp_all add: stringChunks_def)
qed

lemma nl_stringJ [simp]: "nestingLevel (snd (stringJ s)) = nestingLevel s"
proof -
  obtain r l s1 where a: "stringChunks s = (r, l, s1)" by (cases "stringChunks s")
  then show ?thesis
    using nl_stringChunks [of s] by (cases r) (simp_all add: stringJ_def)
qed

lemma nl_accept [simp]: "nestingLevel (snd (accept numStr s)) = nestingLevel s"
  by (simp add: accept_def)

lemma nl_digits [simp]: "nestingLevel (snd (digits numStr s)) = nestingLevel s"
proof (induction numStr s rule: digits.induct)
  case (1 numStr s)
  obtain r1 s1 where a: "accept numStr s = (r1, s1)" by (cases "accept numStr s")
  have k: "nestingLevel s1 = nestingLevel s"
    using a nl_accept [of numStr s] by simp
  show ?case
    using a k "1.IH"
    by (subst digits.simps) (auto simp: bnd_def split: sum.splits)
qed

lemma nl_number [simp]: "nestingLevel (snd (number num s)) = nestingLevel s"
  by (simp add: number_def number_integer_def number_fraction_def number_exponent_def
      split: option.splits)

lemma nl_expect_chars [simp]: "nestingLevel (snd (expect_chars cs s)) = nestingLevel s"
  by (induction cs arbitrary: s) simp_all

lemma nl_next_chars [simp]: "nestingLevel (snd (next_chars cs s)) = nestingLevel s"
  by (induction cs arbitrary: s) simp_all

lemma nl_boolean [simp]: "nestingLevel (snd (boolean s)) = nestingLevel s"
  by (simp add: boolean_def Let_def)

lemma nl_nullJ [simp]: "nestingLevel (snd (nullJ s)) = nestingLevel s"
  by (simp add: nullJ_def)

lemma nl_separator [simp]: "nestingLevel (snd (separator E s)) = nestingLevel s"
  by (simp add: separator_def)

lemma skip_balanced:
  "balanced valuef \<Longrightarrow> skip valuef fuel s = Some (Inr u, s') \<Longrightarrow> nestingLevel s' = nestingLevel s"
  by (auto simp: skip_eq balanced_def split: option.splits prod.splits sum.splits)

lemma resume_balanced:
  assumes "balanced valuef" and "resume valuef fuel E h s = Some (Inr u, h', s')"
  shows "nestingLevel s' = nestingLevel s"
proof -
  from assms(2) obtain s1 where
    a: "(if \<not> didParse h then skip valuef fuel s else Some (Inr (), s)) = Some (Inr (), s1)"
    and b: "separator E s1 = (Inr u, s')"
    by (auto simp: resume_def split: option.splits prod.splits sum.splits)
  from a assms(1) have "nestingLevel s1 = nestingLevel s"
    by (auto split: if_splits dest: skip_balanced)
  moreover from b nl_separator [of E s1] have "nestingLevel s' = nestingLevel s1"
    by simp
  ultimately show ?thesis by simp
qed

lemma consume_value_balanced: "balanced valuef \<Longrightarrow> balanced_body (consume_value valuef store)"
  by (auto simp: balanced_def balanced_body_def consume_value_def unparsed_value_def
        split: option.splits prod.splits sum.splits)

lemma consume_nothing_balanced: "balanced_body consume_nothing"
  by (simp add: balanced_body_def consume_nothing_def)

lemma object_advance_nl:
  assumes "object_advance s = (Inr st, s')"
  shows "nestingLevel s' = (case st of Done \<Rightarrow> nestingLevel s - 1 | Yield k h \<Rightarrow> nestingLevel s)"
proof -
  obtain r1 s1 where a: "consumeWhitespace s = (r1, s1)" by (cases "consumeWhitespace s")
  then have k1: "nestingLevel s1 = nestingLevel s"
    using nl_consumeWhitespace [of s] by simp
  show ?thesis
  proof (cases "currentChar s1 = Some (cu CHR ''}'')")
    case True
    obtain r2 s2 where b: "nextChar s1 = (r2, s2)" by (cases "nextChar s1")
    then have "nestingLevel s2 = nestingLevel s1" using nl_nextChar [of s1] by simp
    with assms a b True k1 show ?thesis
      by (cases r1; cases r2) (auto simp: object_advance_def bnd_def ret_def)
  next
    case False
    let ?m = "bnd stringJ (\<lambda>key.
         bnd consumeWhitespace (\<lambda>_.
         bnd (lift (assertChar (cu CHR '':''))) (\<lambda>_.
         bnd nextChar (\<lambda>_. ret (Yield key UnparsedValue)))))"
    from assms a False have e: "?m s1 = (Inr st, s')" and y: "\<exists>k h. st = Yield k h"
      by (cases r1; auto simp: object_advance_def bnd_def ret_def lift_def
          split: prod.splits sum.splits)+
    have "nestingLevel (snd (?m s1)) = nestingLevel s1" by simp
    then have "nestingLevel s' = nestingLevel s1" by (simp only: e snd_conv)
    with y k1 show ?thesis by auto
  qed
qed

lemma array_advance_nl:
  assumes "array_advance i s = (Inr st, s')"
  shows "nestingLevel s' = (case st of Done \<Rightarrow> nestingLevel s - 1 | Yield k h \<Rightarrow> nestingLevel s)"
proof -
  obtain r1 s1 where a: "consumeWhitespace s = (r1, s1)" by (cases "consumeWhitespace s")
  then have k1: "nestingLevel s1 = nestingLevel s"
    using nl_consumeWhitespace [of s] by simp
  obtain r2 s2 where b: "nextChar s1 = (r2, s2)" by (cases "nextChar s1")
  then have "nestingLevel s2 = nestingLevel s1" using nl_nextChar [of s1] by simp
  with assms a b k1 show ?thesis
    by (cases r1; cases r2)
       (auto simp: array_advance_def bnd_def ret_def split: if_splits)
qed

lemma object_for_nl:
  assumes "balanced valuef" and "balanced_body body"
  shows "object_for valuef body fuel a s = Some (Inr r, s') \<Longrightarrow> nestingLevel s' = nestingLevel s - 1"
proof (induction fuel arbitrary: a s)
  case 0
  then show ?case by simp
next
  case (Suc n)
  from Suc.prems obtain st s1 where adv: "object_advance s = (Inr st, s1)"
    by (auto split: prod.splits sum.splits)
  show ?case
  proof (cases st)
    case Done
    with adv Suc.prems object_advance_nl [OF adv] show ?thesis by simp
  next
    case (Yield k h)
    with adv Suc.prems obtain a1 h1 s2 u h2 s3 where
      b: "body k h a s1 = Some (Inr a1, h1, s2)"
      and c: "resume valuef n OBJECT_END_CHARS h1 s2 = Some (Inr u, h2, s3)"
      and d: "object_for valuef body n a1 s3 = Some (Inr r, s')"
      by (auto split: option.splits prod.splits sum.splits)
    from adv Yield object_advance_nl [OF adv] have "nestingLevel s1 = nestingLevel s" by simp
    moreover from b assms(2) have "nestingLevel s2 = nestingLevel s1"
      by (auto simp: balanced_body_def)
    moreover from c assms(1) have "nestingLevel s3 = nestingLevel s2"
      by (rule resume_balanced [rotated])
    moreover from d have "nestingLevel s' = nestingLevel s3 - 1" by (rule Suc.IH)
    ultimately show ?thesis by simp
  qed
qed

lemma array_for_nl:
  assumes "balanced valuef" and "balanced_body body"
  shows "array_for valuef body fuel a i s = Some (Inr r, j, s')
    \<Longrightarrow> nestingLevel s' = nestingLevel s - 1"
proof (induction fuel arbitrary: a i s)
  case 0
  then show ?case by simp
next
  case (Suc n)
  from Suc.prems obtain st s1 where adv: "array_advance i s = (Inr st, s1)"
    by (auto split: prod.splits sum.splits)
  show ?case
  proof (cases st)
    case Done
    with adv Suc.prems array_advance_nl [OF adv] show ?thesis by simp
  next
    case (Yield k h)
    with adv Suc.prems obtain a1 h1 s2 u h2 s3 where
      b: "body k h a s1 = Some (Inr a1, h1, s2)"
      and c: "resume valuef n ARRAY_END_CHARS h1 s2 = Some (Inr u, h2, s3)"
      and d: "array_for valuef body n a1 (i + 1) s3 = Some (Inr r, j, s')"
      by (auto split: option.splits prod.splits sum.splits)
    from adv Yield array_advance_nl [OF adv] have "nestingLevel s1 = nestingLevel s" by simp
    moreover from b assms(2) have "nestingLevel s2 = nestingLevel s1"
      by (auto simp: balanced_body_def)
    moreover from c assms(1) have "nestingLevel s3 = nestingLevel s2"
      by (rule resume_balanced [rotated])
    moreover from d have "nestingLevel s' = nestingLevel s3 - 1" by (rule Suc.IH)
    ultimately show ?thesis by simp
  qed
qed

lemma object_nl: "object s = (Inr c, s') \<Longrightarrow> nestingLevel s' = nestingLevel s + 1"
proof -
  assume a: "object s = (Inr c, s')"
  let ?m = "bnd consumeWhitespace (\<lambda>_. bnd (lift (assertChar (cu CHR ''{''))) (\<lambda>_. nextChar))"
  from a obtain s1 where e: "?m s = (Inr (), s1)"
    and s': "s' = s1\<lparr>nestingLevel := nestingLevel s1 + 1\<rparr>"
    by (auto simp: object_def bnd_def ret_def split: prod.splits sum.splits)
  have "nestingLevel (snd (?m s)) = nestingLevel s" by simp
  then have "nestingLevel s1 = nestingLevel s" by (simp only: e snd_conv)
  with s' show ?thesis by simp
qed

lemma array_nl: "array s = (Inr c, s') \<Longrightarrow> nestingLevel s' = nestingLevel s + 1"
proof -
  assume a: "array s = (Inr c, s')"
  let ?m = "bnd consumeWhitespace (\<lambda>_. bnd (lift (assertChar (cu CHR ''[''))) (\<lambda>_. nextChar))"
  from a obtain s1 where e: "?m s = (Inr (), s1)"
    and s': "s' = s1\<lparr>nestingLevel := nestingLevel s1 + 1\<rparr>"
    by (auto simp: array_def bnd_def ret_def split: prod.splits sum.splits)
  have "nestingLevel (snd (?m s)) = nestingLevel s" by simp
  then have "nestingLevel s1 = nestingLevel s" by (simp only: e snd_conv)
  with s' show ?thesis by simp
qed

lemma object_value_nl:
  assumes "balanced valuef" and "object s0 = (Inr c, s)"
    and "object_value valuef fuel c s = Some (Inr v, c1, s')"
  shows "nestingLevel s' = nestingLevel s - 1"
proof -
  from assms(2) have "\<not> iteratorCalled c" "extractedValue c = None"
    by (auto simp: object_def bnd_def ret_def StreamingObject_def split: prod.splits sum.splits)
  with assms(3) have "object_for valuef (consume_value valuef setProperty) fuel [] s = Some (Inr v, s')"
    by (auto simp: object_value_def object_iterate_def split: option.splits prod.splits sum.splits)
  then show ?thesis
    by (rule object_for_nl [OF assms(1) consume_value_balanced [OF assms(1)]])
qed

lemma array_value_nl:
  assumes "balanced valuef" and "array s0 = (Inr c, s)"
    and "array_value valuef fuel c s = Some (Inr v, c1, s')"
  shows "nestingLevel s' = nestingLevel s - 1"
proof -
  from assms(2) have "\<not> iteratorCalled c" "extractedValue c = None"
    by (auto simp: array_def bnd_def ret_def StreamingArray_def split: prod.splits sum.splits)
  with assms(3) obtain j where
    "array_for valuef (consume_value valuef (\<lambda>_ v result. result @ [v])) fuel [] (index c) s
       = Some (Inr v, j, s')"
    by (auto simp: array_value_def array_iterate_def split: option.splits prod.splits sum.splits)
  then show ?thesis
    by (rule array_for_nl [OF assms(1) consume_value_balanced [OF assms(1)]])
qed

lemma mapR_Inr: "mapR f p = (Inr v, s') \<Longrightarrow> \<exists>x. p = (Inr x, s')"
  by (auto simp: mapR_def split: prod.splits sum.splits)

lemma value_body_balanced:
  assumes "balanced valuef"
  shows "balanced (value_body num valuef fuel)"
  unfolding balanced_def
proof (intro allI impI)
  fix s v s'
  assume a: "value_body num valuef fuel s = Some (Inr v, s')"
  obtain r1 s1 where w: "consumeWhitespace s = (r1, s1)" by (cases "consumeWhitespace s")
  then have k1: "nestingLevel s1 = nestingLevel s"
    using nl_consumeWhitespace [of s] by simp
  from a w have r1: "r1 = Inr ()"
    by (cases r1) (simp_all add: value_body_def)
  from a w r1 obtain t where t: "peekValueType s1 = Inr t"
    by (cases "peekValueType s1") (simp_all add: value_body_def)
  have "nestingLevel s' = nestingLevel s1"
  proof (cases t)
    case TString
    with a w t r1 have "mapR JStr (stringJ s1) = (Inr v, s')"
      by (simp add: value_body_def)
    then obtain x where "stringJ s1 = (Inr x, s')"
      by (auto dest: mapR_Inr)
    then show ?thesis using nl_stringJ [of s1] by simp
  next
    case TObject
    obtain r2 s2 where o: "object s1 = (r2 :: error + 'a streamingObject, s2)"
      by (cases "object s1 :: 'a streamingObject R")
    from a w t r1 TObject o obtain c where c: "r2 = Inr c"
      by (cases r2) (simp_all add: value_body_def)
    from a w t r1 TObject o c obtain r3 c1 s3 where
      ov: "object_value valuef fuel c s2 = Some (r3, c1, s3)" and m: "mapR JObj (r3, s3) = (Inr v, s')"
      by (cases "object_value valuef fuel c s2") (auto simp: value_body_def)
    from m obtain x where "r3 = Inr x" "s3 = s'"
      by (auto dest: mapR_Inr)
    with ov o c object_nl [of s1 c s2] object_value_nl [OF assms, of s1 c s2 fuel x c1 s']
    show ?thesis by simp
  next
    case TArray
    obtain r2 s2 where o: "array s1 = (r2 :: error + 'a json list streamingArray, s2)"
      by (cases "array s1 :: 'a json list streamingArray R")
    from a w t r1 TArray o obtain c where c: "r2 = Inr c"
      by (cases r2) (simp_all add: value_body_def)
    from a w t r1 TArray o c obtain r3 c1 s3 where
      ov: "array_value valuef fuel c s2 = Some (r3, c1, s3)" and m: "mapR JArr (r3, s3) = (Inr v, s')"
      by (cases "array_value valuef fuel c s2") (auto simp: value_body_def)
    from m obtain x where "r3 = Inr x" "s3 = s'"
      by (auto dest: mapR_Inr)
    with ov o c array_nl [of s1 c s2] array_value_nl [OF assms, of s1 c s2 fuel x c1 s']
    show ?thesis by simp
  next
    case TBoolean
    with a w t r1 have "mapR JBool (boolean s1) = (Inr v, s')"
      by (simp add: value_body_def)
    then obtain x where "boolean s1 = (Inr x, s')"
      by (auto dest: mapR_Inr)
    then show ?thesis using nl_boolean [of s1] by simp
  next
    case TNull
    with a w t r1 have "mapR (\<lambda>_. JNull) (nullJ s1) = (Inr v, s')"
      by (simp add: value_body_def)
    then obtain x where "nullJ s1 = (Inr x, s')"
      by (auto dest: mapR_Inr)
    then show ?thesis using nl_nullJ [of s1] by simp
  next
    case TNumber
    with a w t r1 have "mapR JNum (number num s1) = (Inr v, s')"
      by (simp add: value_body_def)
    then obtain x where "number num s1 = (Inr x, s')"
      by (auto dest: mapR_Inr)
    then show ?thesis using nl_number [of num s1] by simp
  qed
  with k1 show "nestingLevel s' = nestingLevel s" by simp
qed

lemma valueJ_balanced: "balanced (valueJ num n)"
proof (induction n)
  case 0
  show ?case by (simp add: balanced_def)
next
  case (Suc n)
  then show ?case by (simp add: value_body_balanced)
qed

text \<open>
  C10. Entering an object or an array raises the nesting level by exactly one. A completed
  iteration of the cursor, whether the consumer reads every handle with \<open>value()\<close> or
  none, lowers it by exactly one from where the iteration started. So every \<open>value()\<close>
  and every \<open>skip()\<close> that returns leaves the nesting level it found.
\<close>

theorem C10_nesting_level_balanced:
  "(object s = (Inr c, s') \<longrightarrow> nestingLevel s' = nestingLevel s + 1)
   \<and> (array s = (Inr c', s') \<longrightarrow> nestingLevel s' = nestingLevel s + 1)
   \<and> (object_for (valueJ num n) (consume_value (valueJ num n) store) fuel a s = Some (Inr r, s')
        \<longrightarrow> nestingLevel s' = nestingLevel s - 1)
   \<and> (object_for (valueJ num n) consume_nothing fuel a s = Some (Inr r, s')
        \<longrightarrow> nestingLevel s' = nestingLevel s - 1)
   \<and> (array_for (valueJ num n) (consume_value (valueJ num n) store') fuel a i s = Some (Inr r, j, s')
        \<longrightarrow> nestingLevel s' = nestingLevel s - 1)
   \<and> (array_for (valueJ num n) consume_nothing fuel a i s = Some (Inr r, j, s')
        \<longrightarrow> nestingLevel s' = nestingLevel s - 1)
   \<and> (valueJ num n s = Some (Inr v, s') \<longrightarrow> nestingLevel s' = nestingLevel s)
   \<and> (skipJ num n s = Some (Inr u, s') \<longrightarrow> nestingLevel s' = nestingLevel s)"
proof -
  note b = valueJ_balanced [of num n]
  show ?thesis
  proof (intro conjI impI)
    show "object s = (Inr c, s') \<Longrightarrow> nestingLevel s' = nestingLevel s + 1"
      by (rule object_nl)
    show "array s = (Inr c', s') \<Longrightarrow> nestingLevel s' = nestingLevel s + 1"
      by (rule array_nl)
    show "object_for (valueJ num n) (consume_value (valueJ num n) store) fuel a s = Some (Inr r, s')
        \<Longrightarrow> nestingLevel s' = nestingLevel s - 1"
      by (rule object_for_nl [OF b consume_value_balanced [OF b]])
    show "object_for (valueJ num n) consume_nothing fuel a s = Some (Inr r, s')
        \<Longrightarrow> nestingLevel s' = nestingLevel s - 1"
      by (rule object_for_nl [OF b consume_nothing_balanced])
    show "array_for (valueJ num n) (consume_value (valueJ num n) store') fuel a i s
            = Some (Inr r, j, s')
        \<Longrightarrow> nestingLevel s' = nestingLevel s - 1"
      by (rule array_for_nl [OF b consume_value_balanced [OF b]])
    show "array_for (valueJ num n) consume_nothing fuel a i s = Some (Inr r, j, s')
        \<Longrightarrow> nestingLevel s' = nestingLevel s - 1"
      by (rule array_for_nl [OF b consume_nothing_balanced])
    show "valueJ num n s = Some (Inr v, s') \<Longrightarrow> nestingLevel s' = nestingLevel s"
      using b by (auto simp: balanced_def)
    show "skipJ num n s = Some (Inr u, s') \<Longrightarrow> nestingLevel s' = nestingLevel s"
      unfolding skipJ_def by (rule skip_balanced [OF b])
  qed
qed

theorem C10_nesting_level_balanced_witness:
  "object (StreamingJSON [js ''{}'']) = (Inr (StreamingObject :: jstring streamingObject), \<lparr>currentChar = Some (cu CHR ''}''), nestingLevel = 1, buffer = [], stream = []\<rparr>)
   \<and> nestingLevel \<lparr>currentChar = Some (cu CHR ''}''), nestingLevel = 1, buffer = [], stream = []\<rparr> = nestingLevel (StreamingJSON [js ''{}'']) + 1
   \<and> array (StreamingJSON [js ''[]'']) = (Inr (StreamingArray :: jstring json list streamingArray), \<lparr>currentChar = Some (cu CHR '']''), nestingLevel = 1, buffer = [], stream = []\<rparr>)
   \<and> nestingLevel \<lparr>currentChar = Some (cu CHR '']''), nestingLevel = 1, buffer = [], stream = []\<rparr> = nestingLevel (StreamingJSON [js ''[]'']) + 1
   \<and> object_for (valueJ Some 1) (consume_value (valueJ Some 1) setProperty) 1 [] \<lparr>currentChar = Some (cu CHR ''}''), nestingLevel = 1, buffer = [], stream = []\<rparr>
       = Some (Inr [], \<lparr>currentChar = None, nestingLevel = 0, buffer = [], stream = []\<rparr>)
   \<and> object_for (valueJ Some 1) consume_nothing 1 () \<lparr>currentChar = Some (cu CHR ''}''), nestingLevel = 1, buffer = [], stream = []\<rparr> = Some (Inr (), \<lparr>currentChar = None, nestingLevel = 0, buffer = [], stream = []\<rparr>)
   \<and> array_for (valueJ Some 1) (consume_value (valueJ Some 1) (\<lambda>_ v r. r @ [v])) 1 [] 0 \<lparr>currentChar = Some (cu CHR '']''), nestingLevel = 1, buffer = [], stream = []\<rparr>
       = Some (Inr [], 0, \<lparr>currentChar = None, nestingLevel = 0, buffer = [], stream = []\<rparr>)
   \<and> array_for (valueJ Some 1) consume_nothing 1 () 0 \<lparr>currentChar = Some (cu CHR '']''), nestingLevel = 1, buffer = [], stream = []\<rparr> = Some (Inr (), 0, \<lparr>currentChar = None, nestingLevel = 0, buffer = [], stream = []\<rparr>)
   \<and> nestingLevel \<lparr>currentChar = None, nestingLevel = 0, buffer = [], stream = []\<rparr> = nestingLevel \<lparr>currentChar = Some (cu CHR ''}''), nestingLevel = 1, buffer = [], stream = []\<rparr> - 1
   \<and> nestingLevel \<lparr>currentChar = None, nestingLevel = 0, buffer = [], stream = []\<rparr> = nestingLevel \<lparr>currentChar = Some (cu CHR '']''), nestingLevel = 1, buffer = [], stream = []\<rparr> - 1
   \<and> valueJ Some 3 (StreamingJSON [js ''[1]'']) = Some (Inr (JArr [JNum (js ''1'')]), \<lparr>currentChar = None, nestingLevel = 0, buffer = [], stream = []\<rparr>)
   \<and> skipJ Some 3 (StreamingJSON [js ''[1]'']) = Some (Inr (), \<lparr>currentChar = None, nestingLevel = 0, buffer = [], stream = []\<rparr>)
   \<and> nestingLevel \<lparr>currentChar = None, nestingLevel = 0, buffer = [], stream = []\<rparr> = nestingLevel (StreamingJSON [js ''[1]''])"
proof -
  have h1: "object (StreamingJSON [js ''{}'']) = (Inr (StreamingObject :: jstring streamingObject), \<lparr>currentChar = Some (cu CHR ''}''), nestingLevel = 1, buffer = [], stream = []\<rparr>)"
    by code_simp
  have h2: "array (StreamingJSON [js ''[]'']) = (Inr (StreamingArray :: jstring json list streamingArray), \<lparr>currentChar = Some (cu CHR '']''), nestingLevel = 1, buffer = [], stream = []\<rparr>)"
    by code_simp
  have h3: "object_for (valueJ Some 1) (consume_value (valueJ Some 1) setProperty) 1 [] \<lparr>currentChar = Some (cu CHR ''}''), nestingLevel = 1, buffer = [], stream = []\<rparr>
       = Some (Inr [], \<lparr>currentChar = None, nestingLevel = 0, buffer = [], stream = []\<rparr>)"
    by code_simp
  have h4: "object_for (valueJ Some 1) consume_nothing 1 () \<lparr>currentChar = Some (cu CHR ''}''), nestingLevel = 1, buffer = [], stream = []\<rparr> = Some (Inr (), \<lparr>currentChar = None, nestingLevel = 0, buffer = [], stream = []\<rparr>)"
    by code_simp
  have h5: "array_for (valueJ Some 1) (consume_value (valueJ Some 1) (\<lambda>_ v r. r @ [v])) 1 [] 0 \<lparr>currentChar = Some (cu CHR '']''), nestingLevel = 1, buffer = [], stream = []\<rparr>
       = Some (Inr [], 0, \<lparr>currentChar = None, nestingLevel = 0, buffer = [], stream = []\<rparr>)"
    by code_simp
  have h6: "array_for (valueJ Some 1) consume_nothing 1 () 0 \<lparr>currentChar = Some (cu CHR '']''), nestingLevel = 1, buffer = [], stream = []\<rparr> = Some (Inr (), 0, \<lparr>currentChar = None, nestingLevel = 0, buffer = [], stream = []\<rparr>)"
    by code_simp
  have h7: "valueJ Some 3 (StreamingJSON [js ''[1]'']) = Some (Inr (JArr [JNum (js ''1'')]), \<lparr>currentChar = None, nestingLevel = 0, buffer = [], stream = []\<rparr>)"
    by code_simp
  have h8: "skipJ Some 3 (StreamingJSON [js ''[1]'']) = Some (Inr (), \<lparr>currentChar = None, nestingLevel = 0, buffer = [], stream = []\<rparr>)"
    by code_simp
  note T = C10_nesting_level_balanced
  note c1 = T [THEN conjunct1, rule_format, OF h1]
  note c2 = T [THEN conjunct2, THEN conjunct1, rule_format, OF h2]
  note c3 = T [THEN conjunct2, THEN conjunct2, THEN conjunct1, rule_format, OF h3]
  note c4 = T [THEN conjunct2, THEN conjunct2, THEN conjunct2, THEN conjunct1, rule_format, OF h4]
  note c5 = T [THEN conjunct2, THEN conjunct2, THEN conjunct2, THEN conjunct2, THEN conjunct1,
               rule_format, OF h5]
  note c6 = T [THEN conjunct2, THEN conjunct2, THEN conjunct2, THEN conjunct2, THEN conjunct2,
               THEN conjunct1, rule_format, OF h6]
  note c7 = T [THEN conjunct2, THEN conjunct2, THEN conjunct2, THEN conjunct2, THEN conjunct2,
               THEN conjunct2, THEN conjunct1, rule_format, OF h7]
  note c8 = T [THEN conjunct2, THEN conjunct2, THEN conjunct2, THEN conjunct2, THEN conjunct2,
               THEN conjunct2, THEN conjunct2, rule_format, OF h8]
  show ?thesis
    using h1 h2 h3 h4 h5 h6 h7 h8 c1 c2 c3 c5 c7 c4 c6 c8
    by (intro conjI) assumption+
qed

end
